theory Spec2Isabelle
  imports Complex_Main "HOL-Library.AList"
begin

section \<open>The ClickHouse history adapter (main.js): values and the runtime\<close>

text \<open>
  JavaScript values as far as the adapter handles them: the values a state can carry
  (JSON values and \<open>undefined\<close>). Numbers are the finite doubles, read as reals, so
  arithmetic is exact; \<open>NaN\<close> and the infinities appear only as the failure of a
  conversion (\<open>None\<close>).
\<close>

datatype jsval =
    JUndefined
  | JNull
  | JBool bool
  | JNum real
  | JStr string
  | JObject "(string \<times> jsval) list"
  | JArray "jsval list"

text \<open>
  The operations of the ECMAScript runtime that the adapter calls and that are not
  written out here are parameters of the model: the decimal rendering of a number that
  is not an integer, the numeric reading of a string, the string form of an object,
  \<open>JSON.stringify\<close>, \<open>JSON.parse\<close> (\<open>None\<close> when it throws) and
  \<open>Date.prototype.toISOString\<close> on a valid time value.
\<close>

record js_runtime =
  NumberToString :: "real \<Rightarrow> string"
  StringToNumber :: "string \<Rightarrow> real option"
  ObjectToString :: "jsval \<Rightarrow> string"
  JSON_stringify :: "jsval \<Rightarrow> string"
  JSON_parse :: "string \<Rightarrow> jsval option"
  toISOString :: "real \<Rightarrow> string"

definition digit_char :: "nat \<Rightarrow> char" where
  "digit_char d = ''0123456789'' ! d"

fun decimal :: "nat \<Rightarrow> string" where
  "decimal n = (if n < 10 then [digit_char n] else decimal (n div 10) @ [digit_char (n mod 10)])"

declare decimal.simps [simp del]

text \<open>
  \<open>String(x)\<close> for a number: an integer below \<open>10^21\<close> in absolute value prints as
  its decimal digits; every other number is left to the runtime.
\<close>

definition number_to_string :: "js_runtime \<Rightarrow> real \<Rightarrow> string" where
  "number_to_string rt x =
     (if x = of_int \<lfloor>x\<rfloor> \<and> \<bar>x\<bar> < 10 ^ 21
      then (if x < 0 then ''-'' else '''') @ decimal (nat \<bar>\<lfloor>x\<rfloor>\<bar>)
      else NumberToString rt x)"


text \<open>\<open>typeof value\<close>.\<close>

fun js_typeof :: "jsval \<Rightarrow> string" where
  "js_typeof JUndefined = ''undefined''"
| "js_typeof JNull = ''object''"
| "js_typeof (JBool b) = ''boolean''"
| "js_typeof (JNum x) = ''number''"
| "js_typeof (JStr s) = ''string''"
| "js_typeof (JObject kvs) = ''object''"
| "js_typeof (JArray vs) = ''object''"

text \<open>\<open>String(value)\<close>.\<close>

fun js_String :: "js_runtime \<Rightarrow> jsval \<Rightarrow> string" where
  "js_String rt JUndefined = ''undefined''"
| "js_String rt JNull = ''null''"
| "js_String rt (JBool b) = (if b then ''true'' else ''false'')"
| "js_String rt (JNum x) = number_to_string rt x"
| "js_String rt (JStr s) = s"
| "js_String rt (JObject kvs) = ObjectToString rt (JObject kvs)"
| "js_String rt (JArray vs) = ObjectToString rt (JArray vs)"

text \<open>\<open>Number(value)\<close>; \<open>None\<close> is a result that is not finite.\<close>

fun js_Number :: "js_runtime \<Rightarrow> jsval \<Rightarrow> real option" where
  "js_Number rt JUndefined = None"
| "js_Number rt JNull = Some 0"
| "js_Number rt (JBool b) = Some (if b then 1 else 0)"
| "js_Number rt (JNum x) = Some x"
| "js_Number rt (JStr s) = StringToNumber rt s"
| "js_Number rt (JObject kvs) = StringToNumber rt (ObjectToString rt (JObject kvs))"
| "js_Number rt (JArray vs) = StringToNumber rt (ObjectToString rt (JArray vs))"

text \<open>\<open>Boolean(value)\<close>, the truthiness of a value.\<close>

fun js_Boolean :: "jsval \<Rightarrow> bool" where
  "js_Boolean JUndefined = False"
| "js_Boolean JNull = False"
| "js_Boolean (JBool b) = b"
| "js_Boolean (JNum x) = (x \<noteq> 0)"
| "js_Boolean (JStr s) = (s \<noteq> [])"
| "js_Boolean (JObject kvs) = True"
| "js_Boolean (JArray vs) = True"

text \<open>
  \<open>a === b\<close>. Two primitives are equal when they are the same value; the model has no
  object identities, and two objects that are built apart are never \<open>===\<close>.
\<close>

fun strict_equal :: "jsval \<Rightarrow> jsval \<Rightarrow> bool" where
  "strict_equal (JObject a) b = False"
| "strict_equal (JArray a) b = False"
| "strict_equal a b = (a = b)"

subsection \<open>On-change reduction of a history result\<close>

text \<open>
  The fields that every state object of the adapter carries; \<open>clonedState\<close> adds
  \<open>from\<close>, an entry of a history result (\<open>mapRowToHistory\<close>) adds \<open>from\<close> and
  the optional \<open>id\<close>.
\<close>

record state_fields =
  val :: jsval
  ts :: real
  lc :: real
  ack :: jsval
  q :: jsval

record js_state = state_fields +
  from' :: jsval







section \<open>Value Normalizer\<close>

text \<open>The type tags \<open>VALUE_TYPES\<close>; the source compares them as strings.\<close>

definition NUMBER :: string where "NUMBER = ''number''"
definition STRING :: string where "STRING = ''string''"
definition BOOLEAN :: string where "BOOLEAN = ''boolean''"
definition JSON :: string where "JSON = ''json''"
definition NULL :: string where "NULL = ''null''"

definition NUMERIC_EPSILON :: real where
  "NUMERIC_EPSILON = 1 / 10 ^ 12"

text \<open>
  The per-point policy, as \<open>normalizeStateConfig\<close> leaves it (and as \<open>_defaults\<close>
  has it): numbers are finite, \<open>round\<close> is \<open>null\<close> or a natural number, the two
  bounds are \<open>null\<close> or a number.
\<close>

record settings =
  storageType :: string
  blockTime :: real
  changesOnly :: bool
  ignoreZero :: bool
  ignoreBelowNumber :: "real option"
  ignoreAboveNumber :: "real option"
  round' :: "nat option"
  changesRelogInterval :: real
  changesMinDelta :: real
  enableDebugLogs :: bool
  disableSkippedValueLogging :: bool

definition defaults :: settings where
  "defaults = \<lparr>storageType = ''auto'', blockTime = 0, changesOnly = True, ignoreZero = False,
     ignoreBelowNumber = None, ignoreAboveNumber = None, round' = None,
     changesRelogInterval = 0, changesMinDelta = 0, enableDebugLogs = False,
     disableSkippedValueLogging = False\<rparr>"

text \<open>The converted value \<open>{type, value, comparable}\<close>.\<close>

record converted =
  type' :: string
  value' :: jsval
  comparable :: jsval

datatype js_error = Error string | RangeError string | TypeError string

definition lower_char :: "char \<Rightarrow> char" where
  "lower_char c =
     (case map_of (zip ''ABCDEFGHIJKLMNOPQRSTUVWXYZ'' ''abcdefghijklmnopqrstuvwxyz'') c of
        Some l \<Rightarrow> l
      | None \<Rightarrow> c)"

definition toLowerCase :: "string \<Rightarrow> string" where
  "toLowerCase s = map lower_char s"

text \<open>\<open>Math.round\<close>: the nearest integer, a tie going up.\<close>

definition Math_round :: "real \<Rightarrow> real" where
  "Math_round x = of_int \<lfloor>x + 1 / 2\<rfloor>"

text \<open>
  \<open>toRoundedNumber\<close>. Its test \<open>!isFinite(number)\<close> never fires on a number of the
  model; the conversions that can fail are in \<open>prepareValue\<close>.
\<close>

definition toRoundedNumber :: "nat option \<Rightarrow> real \<Rightarrow> real" where
  "toRoundedNumber roundDigits number =
     (case roundDigits of
        Some digits \<Rightarrow> (let factor = 10 ^ digits in Math_round (number * factor) / factor)
      | None \<Rightarrow> number)"

definition autoDetect :: "js_runtime \<Rightarrow> nat option \<Rightarrow> jsval \<Rightarrow> converted" where
  "autoDetect rt roundDigits v =
     (if js_typeof v = ''number''
        then (case v of
            JNum x \<Rightarrow> \<lparr>type' = NUMBER, value' = JNum (toRoundedNumber roundDigits x),
                       comparable = JNum (toRoundedNumber roundDigits x)\<rparr>
          | _ \<Rightarrow> \<lparr>type' = NUMBER, value' = v, comparable = v\<rparr>)
      else if js_typeof v = ''boolean'' then \<lparr>type' = BOOLEAN, value' = v, comparable = v\<rparr>
      else if js_typeof v = ''string'' then \<lparr>type' = STRING, value' = v, comparable = v\<rparr>
      else if js_typeof v = ''object''
        then \<lparr>type' = JSON, value' = JStr (JSON_stringify rt v),
              comparable = JStr (JSON_stringify rt v)\<rparr>
      else \<lparr>type' = STRING, value' = JStr (js_String rt v), comparable = JStr (js_String rt v)\<rparr>)"

definition prepareValue :: "js_runtime \<Rightarrow> jsval \<Rightarrow> settings \<Rightarrow> js_error + converted" where
  "prepareValue rt v st =
     (if v = JNull \<or> v = JUndefined
      then Inr \<lparr>type' = NULL, value' = JNull, comparable = JNull\<rparr>
      else
        let lower = toLowerCase (if storageType st = [] then ''auto'' else storageType st);
            roundDigits = round' st
        in if lower = ''number'' then
             (case js_Number rt v of
                None \<Rightarrow> Inl (Error ''Cannot convert value to number'')
              | Some numeric \<Rightarrow>
                  (let rounded = toRoundedNumber roundDigits numeric
                   in Inr \<lparr>type' = NUMBER, value' = JNum rounded, comparable = JNum rounded\<rparr>))
           else if lower = ''string'' then
             Inr \<lparr>type' = STRING, value' = JStr (js_String rt v), comparable = JStr (js_String rt v)\<rparr>
           else if lower = ''boolean'' then
             Inr \<lparr>type' = BOOLEAN, value' = JBool (js_Boolean v), comparable = JBool (js_Boolean v)\<rparr>
           else if lower = ''json'' then
             (let serialized = (if js_typeof v = ''string'' then js_String rt v else JSON_stringify rt v)
              in Inr \<lparr>type' = JSON, value' = JStr serialized, comparable = JStr serialized\<rparr>)
           else Inr (autoDetect rt roundDigits v))"

text \<open>
  \<open>VALUE_COLUMN_CONFIG\<close> with \<open>getColumnConfig\<close>: a type that is none of the five
  tags takes the configuration of \<open>string\<close>.
\<close>

definition encodeValue :: "js_runtime \<Rightarrow> string \<Rightarrow> jsval \<Rightarrow> jsval" where
  "encodeValue rt t v =
     (if t = NUMBER then (if v = JNull \<or> v = JUndefined then JNull else v)
      else if t = BOOLEAN then
        (if v = JNull \<or> v = JUndefined then JNull else if js_Boolean v then JNum 1 else JNum 0)
      else if t = JSON then (if v = JNull \<or> v = JUndefined then JNull else JStr (js_String rt v))
      else if t = NULL then JNull
      else (if v = JNull \<or> v = JUndefined then JNull else JStr (js_String rt v)))"


section \<open>Skip Policy Engine\<close>

text \<open>
  \<open>lastStoredState\<close>: the fields of a state, the type tag and \<open>source\<close>.
\<close>

record stored_state = state_fields +
  stored_type :: string
  source :: jsval

text \<open>
  A tracked point. \<open>relogTimeout\<close> is \<open>None\<close> for \<open>null\<close> and holds the delay in
  milliseconds of the armed timer otherwise; \<open>lastStoredComparable\<close> starts as
  \<open>undefined\<close>. The fields \<open>configHash\<close> and \<open>timeout\<close> are not read by the
  functions modelled here and are left out.
\<close>

record tracked_entry =
  entry_id :: string
  config :: settings
  relogTimeout :: "real option"
  lastState :: "js_state option"
  lastStoredState :: "stored_state option"
  lastStoredComparable :: jsval
  lastLogTime :: real
  lastSkippedState :: "js_state option"
  ephemeral :: bool

text \<open>\<open>Math.abs(a - b) < bound\<close> on two values; a side that is not a number is converted.\<close>

definition abs_diff_less :: "js_runtime \<Rightarrow> jsval \<Rightarrow> jsval \<Rightarrow> real \<Rightarrow> bool" where
  "abs_diff_less rt a b bound =
     (case (js_Number rt a, js_Number rt b) of
        (Some x, Some y) \<Rightarrow> \<bar>x - y\<bar> < bound
      | _ \<Rightarrow> False)"

text \<open>\<open>a < b\<close> and \<open>a > b\<close> for a value and a number.\<close>

definition js_less :: "js_runtime \<Rightarrow> jsval \<Rightarrow> real \<Rightarrow> bool" where
  "js_less rt a b = (case js_Number rt a of Some x \<Rightarrow> x < b | None \<Rightarrow> False)"

definition js_greater :: "js_runtime \<Rightarrow> jsval \<Rightarrow> real \<Rightarrow> bool" where
  "js_greater rt a b = (case js_Number rt a of Some x \<Rightarrow> x > b | None \<Rightarrow> False)"

definition valuesEqual :: "js_runtime \<Rightarrow> converted \<Rightarrow> tracked_entry \<Rightarrow> bool" where
  "valuesEqual rt cv entry =
     (case lastStoredState entry of
        None \<Rightarrow> False
      | Some lastStored \<Rightarrow>
          if type' cv \<noteq> stored_type lastStored then False
          else if type' cv = NUMBER then
            (if js_typeof (lastStoredComparable entry) = ''number''
             then abs_diff_less rt (lastStoredComparable entry) (comparable cv) NUMERIC_EPSILON
             else False)
          else if type' cv = BOOLEAN then strict_equal (lastStoredComparable entry) (comparable cv)
          else if type' cv = STRING \<or> type' cv = JSON
            then strict_equal (lastStoredComparable entry) (comparable cv)
          else if type' cv = NULL
            then lastStoredComparable entry = JNull \<and> comparable cv = JNull
          else False)"

text \<open>The local variable \<open>valueChanged\<close> of \<open>shouldSkipValue\<close>, after the dead-band.\<close>

definition valueChanged :: "js_runtime \<Rightarrow> tracked_entry \<Rightarrow> converted \<Rightarrow> bool" where
  "valueChanged rt entry cv =
     (let changed = \<not> valuesEqual rt cv entry
      in if changed \<and> type' cv = NUMBER \<and> lastStoredComparable entry \<noteq> JUndefined
         then (if changesMinDelta (config entry) > 0
                 \<and> abs_diff_less rt (comparable cv) (lastStoredComparable entry)
                      (changesMinDelta (config entry))
               then False else changed)
         else changed)"

text \<open>
  \<open>shouldSkipValue\<close> returns the decision and the entry, whose \<open>lastSkippedState\<close> it
  may set. The debug log lines are left out.
\<close>

definition shouldSkipValue ::
    "js_runtime \<Rightarrow> tracked_entry \<Rightarrow> converted \<Rightarrow> js_state \<Rightarrow> bool \<Rightarrow> bool \<times> tracked_entry" where
  "shouldSkipValue rt entry cv state timerRelog =
     (let st = config entry; lastStored = lastStoredState entry
      in if \<not> timerRelog \<and> blockTime st > 0
            \<and> (case lastStored of None \<Rightarrow> False
                | Some stored \<Rightarrow> ts state \<le> ts stored + blockTime st)
         then (True, entry)
         else if \<not> timerRelog \<and> ignoreZero st
            \<and> type' cv = NUMBER \<and> strict_equal (comparable cv) (JNum 0)
         then (True, entry)
         else if \<not> timerRelog \<and> ignoreZero st \<and> type' cv = NULL
         then (True, entry)
         else if (case ignoreBelowNumber st of None \<Rightarrow> False
                  | Some belowNumber \<Rightarrow> type' cv = NUMBER \<and> js_less rt (comparable cv) belowNumber)
         then (True, entry)
         else if (case ignoreAboveNumber st of None \<Rightarrow> False
                  | Some aboveNumber \<Rightarrow> type' cv = NUMBER \<and> js_greater rt (comparable cv) aboveNumber)
         then (True, entry)
         else if \<not> timerRelog \<and> changesOnly st \<and> lastStoredState entry \<noteq> None
            \<and> \<not> valueChanged rt entry cv
         then
           (let relogMs = (if changesRelogInterval st > 0 then changesRelogInterval st * 1000 else 0)
            in if relogMs > 0 \<and> (lastLogTime entry = 0 \<or> ts state - lastLogTime entry \<ge> relogMs)
               then (False, entry)
               else (True, if \<not> disableSkippedValueLogging st
                           then entry\<lparr>lastSkippedState := Some state\<rparr> else entry))
         else (False, entry))"

section \<open>Table/Schema Resolver\<close>

text \<open>
  Strings are lists of 8-bit characters. The character classes of the regular
  expressions: \<open>[a-zA-Z0-9_]\<close>, \<open>[0-9]\<close>, and the white space that \<open>trim\<close>
  removes (tab, line feed, vertical tab, form feed, carriage return, space, no-break
  space).
\<close>

definition is_digit :: "char \<Rightarrow> bool" where
  "is_digit c = (let n = (of_char c :: nat) in 48 \<le> n \<and> n \<le> 57)"

definition is_word_char :: "char \<Rightarrow> bool" where
  "is_word_char c =
     (let n = (of_char c :: nat)
      in (97 \<le> n \<and> n \<le> 122) \<or> (65 \<le> n \<and> n \<le> 90) \<or> (48 \<le> n \<and> n \<le> 57) \<or> n = 95)"

definition is_space :: "char \<Rightarrow> bool" where
  "is_space c = (let n = (of_char c :: nat) in (9 \<le> n \<and> n \<le> 13) \<or> n = 32 \<or> n = 160)"

definition is_underscore :: "char \<Rightarrow> bool" where
  "is_underscore c = (c = CHR ''_'')"

definition trim :: "string \<Rightarrow> string" where
  "trim s = rev (dropWhile is_space (rev (dropWhile is_space s)))"

text \<open>
  \<open>replace(/[class]+/g, "_")\<close>: every maximal run of characters of the class becomes
  one underscore. A character of the class that is followed by another one is dropped,
  the last one of the run is replaced.
\<close>

fun replace_runs :: "(char \<Rightarrow> bool) \<Rightarrow> string \<Rightarrow> string" where
  "replace_runs P [] = []"
| "replace_runs P [c] = [if P c then CHR ''_'' else c]"
| "replace_runs P (c # d # cs) =
     (if P c then (if P d then replace_runs P (d # cs) else CHR ''_'' # replace_runs P (d # cs))
      else c # replace_runs P (d # cs))"

text \<open>\<open>replace(/^_+/, "")\<close> and \<open>replace(/_+$/, "")\<close>.\<close>

definition strip_leading :: "string \<Rightarrow> string" where
  "strip_leading s = dropWhile is_underscore s"

definition strip_trailing :: "string \<Rightarrow> string" where
  "strip_trailing s = rev (dropWhile is_underscore (rev s))"

definition sanitizeTablePrefix :: "string \<Rightarrow> string" where
  "sanitizeTablePrefix name =
     (if name = [] then ''history''
      else
        let sanitized = strip_trailing (strip_leading
              (replace_runs (\<lambda>c. \<not> is_word_char c) (trim name)))
        in if sanitized \<noteq> [] then sanitized else ''history'')"

definition sanitizeDatapointIdentifier :: "string \<Rightarrow> string" where
  "sanitizeDatapointIdentifier ident =
     (let sanitized = strip_trailing (strip_leading (replace_runs is_underscore
            (replace_runs (\<lambda>c. \<not> is_word_char c) (trim ident))));
          sanitized = (if sanitized = [] then ''state'' else sanitized);
          sanitized = (if is_digit (hd sanitized) then ''s_'' @ sanitized else sanitized);
          maxIdentifierLength = 48
      in if length sanitized > maxIdentifierLength then take maxIdentifierLength sanitized
         else sanitized)"

text \<open>
  \<open>TableInfo\<close> is \<open>{table, type}\<close>; a buffered row carries the same two fields, the
  identifier and the values to insert.
\<close>

record table_info =
  table :: string
  table_type :: string

record row_values =
  values_ts :: string
  values_value :: jsval

record row = table_info +
  row_id :: string
  values' :: row_values

text \<open>\<open>_tableCache\<close>, a \<open>Map\<close> from identifier to \<open>TableInfo\<close>, in insertion order.\<close>

type_synonym table_cache = "(string \<times> table_info) list"

definition isTableNameInUse :: "table_cache \<Rightarrow> string \<Rightarrow> string \<Rightarrow> bool" where
  "isTableNameInUse cache name ident =
     list_ex (\<lambda>existingId.
        case map_of cache existingId of
          None \<Rightarrow> False
        | Some info \<Rightarrow> table info = name \<and> existingId \<noteq> ident) (map fst cache)"

definition normalizeLength :: "string \<Rightarrow> string" where
  "normalizeLength v = (if length v \<le> 62 then v else take 62 v)"

text \<open>
  The body of the loop of \<open>generateTableName\<close>: the candidate for one value of
  \<open>counter\<close>.
\<close>

definition suffixed_candidate :: "string \<Rightarrow> string \<Rightarrow> nat \<Rightarrow> string" where
  "suffixed_candidate tablePrefix baseName counter =
     (let suffix = ''_'' @ decimal counter;
          maxBaseLength = max 1 (62 - length suffix);
          truncated = (if length baseName > maxBaseLength
                       then strip_trailing (take maxBaseLength baseName) else baseName);
          truncated = (if truncated = [] then take (max 1 maxBaseLength) tablePrefix else truncated)
      in truncated @ suffix)"

text \<open>
  The loop \<open>while (this.isTableNameInUse(candidate, id))\<close>; \<open>counter\<close> is a natural
  number here, which is what the double of the source holds below \<open>2^53\<close>.
\<close>

function generate_loop ::
    "table_cache \<Rightarrow> string \<Rightarrow> string \<Rightarrow> string \<Rightarrow> string \<Rightarrow> nat \<Rightarrow> string" where
  "generate_loop cache tablePrefix ident baseName candidate counter =
     (if isTableNameInUse cache candidate ident
      then generate_loop cache tablePrefix ident baseName
             (suffixed_candidate tablePrefix baseName counter) (counter + 1)
      else candidate)"
  by pat_completeness auto

definition generateTableName :: "string \<Rightarrow> table_cache \<Rightarrow> string \<Rightarrow> string" where
  "generateTableName tablePrefix cache ident =
     (let sanitizedId = sanitizeDatapointIdentifier ident;
          baseName = tablePrefix @ ''_'' @ sanitizedId
      in generate_loop cache tablePrefix ident baseName (normalizeLength baseName) 1)"

section \<open>The adapter's state and its collaborators\<close>

text \<open>
  The fields of the adapter object that the write path uses. \<open>client\<close> tells whether
  \<open>_client\<close> is set; \<open>flushPromise\<close> is \<open>None\<close> for \<open>null\<close> and holds the rows
  of the write in flight otherwise; \<open>batchSize\<close> is \<open>_runtimeOptions.batchSize\<close>.
  Subscriptions and log output are not part of the state.
\<close>

record adapter =
  client :: bool
  buffer :: "row list"
  flushPromise :: "row list option"
  connected :: bool
  tablePrefix :: string
  tableCache :: table_cache
  tracked :: "string \<rightharpoonup> tracked_entry"
  batchSize :: real

text \<open>
  What the host and the store answer during one call: the clock (\<open>Date.now()\<close>,
  read once for a call), the
  object configuration of an identifier as \<open>normalizeStateConfig\<close> would return it
  (\<open>None\<close> when the object has no enabled configuration or cannot be read), its current
  state, and for each store request the error it is rejected with, if any.
\<close>

record collaborators =
  now :: real
  getForeignObject :: "string \<Rightarrow> settings option"
  getForeignState :: "string \<Rightarrow> js_state option"
  client_command :: "string \<Rightarrow> js_error option"
  registry_insert :: "string \<Rightarrow> table_info \<Rightarrow> js_error option"
  client_insert :: "string \<Rightarrow> row_values list \<Rightarrow> js_error option"

text \<open>The state object as it arrives: any field may be missing or of any type.\<close>

record raw_state =
  raw_val :: jsval
  raw_ts :: jsval
  raw_lc :: jsval
  raw_ack :: jsval
  raw_q :: jsval
  raw_from :: jsval

subsection \<open>Rows\<close>

definition replace_first :: "char \<Rightarrow> string \<Rightarrow> string \<Rightarrow> string" where
  "replace_first c r s =
     (if c \<in> set s then takeWhile (\<lambda>x. x \<noteq> c) s @ r @ tl (dropWhile (\<lambda>x. x \<noteq> c) s) else s)"

text \<open>
  \<open>formatDateTime\<close>: \<open>new Date(ts)\<close> is an invalid date beyond
  \<open>8.64e15\<close> milliseconds, and \<open>toISOString\<close> throws a RangeError on it; a valid time
  value is cut to an integer.
\<close>

definition formatDateTime :: "js_runtime \<Rightarrow> real \<Rightarrow> js_error + string" where
  "formatDateTime rt t =
     (if \<bar>t\<bar> \<le> 8640000000000000
      then (let iso = toISOString rt (of_int (if 0 \<le> t then \<lfloor>t\<rfloor> else \<lceil>t\<rceil>))
            in Inr (replace_first (CHR ''Z'') [] (replace_first (CHR ''T'') '' '' iso)))
      else Inl (RangeError ''Invalid time value''))"

definition buildRow ::
    "js_runtime \<Rightarrow> string \<Rightarrow> table_info \<Rightarrow> converted \<Rightarrow> js_state \<Rightarrow> js_error + row" where
  "buildRow rt ident tableInfo cv state =
     (case formatDateTime rt (ts state) of
        Inl e \<Rightarrow> Inl e
      | Inr formatted \<Rightarrow>
          Inr \<lparr>table = table tableInfo, table_type = table_type tableInfo, row_id = ident,
               values' = \<lparr>values_ts = formatted,
                          values_value = encodeValue rt (table_type tableInfo) (value' cv)\<rparr>\<rparr>)"

section \<open>Write Buffer and Flush Coordinator\<close>

text \<open>
  The write of one flush: the rows are grouped by table in a \<open>Map\<close> (insertion order),
  then each table is written with one insert; the first insert that is rejected ends
  the loop with its error.
\<close>

fun group_rows :: "row list \<Rightarrow> (string \<times> row_values list) list \<Rightarrow> (string \<times> row_values list) list" where
  "group_rows [] grouped = grouped"
| "group_rows (r # rows) grouped =
     (let grouped = (if map_of grouped (table r) = None
                     then AList.update (table r) [] grouped else grouped);
          grouped = AList.update (table r)
                      ((case map_of grouped (table r) of Some vs \<Rightarrow> vs | None \<Rightarrow> []) @ [values' r])
                      grouped
      in group_rows rows grouped)"

fun write_tables ::
    "(string \<Rightarrow> row_values list \<Rightarrow> js_error option) \<Rightarrow> (string \<times> row_values list) list \<Rightarrow> nat
      \<Rightarrow> js_error + nat" where
  "write_tables ins [] written = Inr written"
| "write_tables ins ((t, vs) # rest) written =
     (if vs = [] then write_tables ins rest written
      else (case ins t vs of
              Some e \<Rightarrow> Inl e
            | None \<Rightarrow> write_tables ins rest (written + length vs)))"

text \<open>
  The asynchronous body of \<open>flushBuffer\<close>, from the grouping to \<open>finally\<close>: \<open>rows\<close>
  are the rows it took from the queue, \<open>s\<close> is the adapter when the write ends (rows
  queued in the meantime are in its buffer). It returns the result of the promise.
\<close>

definition flush_settle ::
    "collaborators \<Rightarrow> row list \<Rightarrow> adapter \<Rightarrow> (js_error + nat) \<times> adapter" where
  "flush_settle env rows s =
     (case write_tables (client_insert env) (group_rows rows []) 0 of
        Inr written \<Rightarrow> (Inr written, s\<lparr>connected := True, flushPromise := None\<rparr>)
      | Inl e \<Rightarrow>
          (Inl e, s\<lparr>connected := False, buffer := rows @ buffer s, flushPromise := None\<rparr>))"

text \<open>
  What a call of \<open>flushBuffer\<close> does before it first suspends: it resolves with a
  number, returns the promise of the write in flight, waits for that write (a forced
  call), or starts a write of its own with the rows of the queue.
\<close>

datatype flush_call =
    Resolved nat
  | ReturnsInFlight "row list"
  | AwaitsInFlight "row list"
  | Started "row list"

text \<open>
  From \<open>if (!this._buffer.length) return 0\<close> on, the part after the wait: \<open>None\<close>
  when it returns 0, the rows it took from the queue when it starts a write.
\<close>

definition flushBuffer_start :: "adapter \<Rightarrow> row list option \<times> adapter" where
  "flushBuffer_start s =
     (if buffer s = [] then (None, s)
      else (Some (buffer s), s\<lparr>buffer := [], flushPromise := Some (buffer s)\<rparr>))"

definition flushBuffer_call :: "bool \<Rightarrow> adapter \<Rightarrow> flush_call \<times> adapter" where
  "flushBuffer_call force s =
     (if \<not> client s then (Resolved 0, s)
      else if buffer s = [] \<and> \<not> force then (Resolved 0, s)
      else (case flushPromise s of
              Some inFlight \<Rightarrow>
                if \<not> force then (ReturnsInFlight inFlight, s) else (AwaitsInFlight inFlight, s)
            | None \<Rightarrow>
                (case flushBuffer_start s of
                   (None, s') \<Rightarrow> (Resolved 0, s')
                 | (Some rows, s') \<Rightarrow> (Started rows, s'))))"

text \<open>
  A call of \<open>flushBuffer\<close> run to its end with nothing else scheduled in between: a
  write in flight ends first where the call waits for it, then the call's own write.
\<close>

definition flushBuffer :: "collaborators \<Rightarrow> bool \<Rightarrow> adapter \<Rightarrow> (js_error + nat) \<times> adapter" where
  "flushBuffer env force s =
     (case flushBuffer_call force s of
        (Resolved n, s1) \<Rightarrow> (Inr n, s1)
      | (ReturnsInFlight inFlight, s1) \<Rightarrow> flush_settle env inFlight s1
      | (Started rows, s1) \<Rightarrow> flush_settle env rows s1
      | (AwaitsInFlight inFlight, s1) \<Rightarrow>
          (case flushBuffer_start (snd (flush_settle env inFlight s1)) of
             (None, s2) \<Rightarrow> (Inr 0, s2)
           | (Some rows, s2) \<Rightarrow> flush_settle env rows s2))"

text \<open>
  The adapter together with the writes that are in flight, and the events that change
  them: a row is queued, a call of \<open>flushBuffer\<close> runs up to its first suspension, a
  write in flight ends, a forced call that waited goes on. The last rule has the
  premise that no other write was started since the awaited one ended.
\<close>

inductive step :: "adapter \<times> row list list \<Rightarrow> adapter \<times> row list list \<Rightarrow> bool" where
  queue: "step (s, ws) (s\<lparr>buffer := buffer s @ [r]\<rparr>, ws)"
| call: "flushBuffer_call force s = (c, s') \<Longrightarrow>
     step (s, ws) (s', case c of Started rows \<Rightarrow> ws @ [rows] | _ \<Rightarrow> ws)"
| settle: "rows \<in> set ws \<Longrightarrow> flush_settle env rows s = (res, s') \<Longrightarrow>
     step (s, ws) (s', remove1 rows ws)"
| resume: "flushPromise s = None \<Longrightarrow> flushBuffer_start s = (started, s') \<Longrightarrow>
     step (s, ws) (s', case started of Some rows \<Rightarrow> ws @ [rows] | None \<Rightarrow> ws)"


definition queueRow_push :: "row \<Rightarrow> adapter \<Rightarrow> adapter" where
  "queueRow_push r s = s\<lparr>buffer := buffer s @ [r]\<rparr>"

section \<open>pushHistory\<close>

definition createEphemeralEntry :: "string \<Rightarrow> tracked_entry" where
  "createEphemeralEntry ident =
     \<lparr>entry_id = ident, config = defaults, relogTimeout = None, lastState = None,
      lastStoredState = None, lastStoredComparable = JUndefined, lastLogTime = 0,
      lastSkippedState = None, ephemeral = True\<rparr>"

definition addTrackedDatapoint :: "collaborators \<Rightarrow> string \<Rightarrow> settings \<Rightarrow> tracked_entry" where
  "addTrackedDatapoint env ident normalized =
     \<lparr>entry_id = ident, config = normalized, relogTimeout = None,
      lastState = getForeignState env ident,
      lastStoredState = None, lastStoredComparable = JUndefined, lastLogTime = 0,
      lastSkippedState = None, ephemeral = False\<rparr>"

definition ensureEntryForId :: "collaborators \<Rightarrow> adapter \<Rightarrow> string \<Rightarrow> tracked_entry \<times> adapter" where
  "ensureEntryForId env s ident =
     (case tracked s ident of
        Some entry \<Rightarrow> (entry, s)
      | None \<Rightarrow>
          (let entry = (case getForeignObject env ident of
                          Some custom \<Rightarrow> addTrackedDatapoint env ident custom
                        | None \<Rightarrow> createEphemeralEntry ident)
           in (entry, s\<lparr>tracked := (tracked s)(ident \<mapsto> entry)\<rparr>)))"

definition ensureTableFor ::
    "collaborators \<Rightarrow> adapter \<Rightarrow> string \<Rightarrow> string \<Rightarrow> (js_error + table_info) \<times> adapter" where
  "ensureTableFor env s ident valueType =
     (case map_of (tableCache s) ident of
        Some info \<Rightarrow> (Inr info, s)
      | None \<Rightarrow>
          (let tableName = generateTableName (tablePrefix s) (tableCache s) ident
           in if \<not> client s then (Inl (TypeError ''Cannot read properties of null''), s)
              else (case client_command env tableName of
                      Some e \<Rightarrow> (Inl e, s)
                    | None \<Rightarrow>
                        (let info = \<lparr>table = tableName, table_type = valueType\<rparr>
                         in (case registry_insert env ident info of
                               Some e \<Rightarrow> (Inl e, s)
                             | None \<Rightarrow>
                                 (Inr info,
                                  s\<lparr>tableCache := AList.update ident info (tableCache s)\<rparr>))))))"

definition cloneState :: "collaborators \<Rightarrow> raw_state \<Rightarrow> js_state" where
  "cloneState env state =
     \<lparr>val = raw_val state,
      ts = (case raw_ts state of JNum t \<Rightarrow> t | _ \<Rightarrow> now env),
      lc = (case raw_lc state of JNum t \<Rightarrow> t | _ \<Rightarrow> now env),
      ack = (if raw_ack state = JNull \<or> raw_ack state = JUndefined then JBool False
             else raw_ack state),
      q = (if raw_q state = JNull \<or> raw_q state = JUndefined then JNum 0 else raw_q state),
      from' = (if js_Boolean (raw_from state) then raw_from state else JStr [])\<rparr>"

text \<open>How a call of \<open>pushHistory\<close> ends.\<close>

datatype push_outcome =
    NotTracked
  | UndefinedValue
  | CannotStore js_error
  | CannotPrepare js_error
  | TypeMismatch
  | Skipped
  | Rejected js_error
  | Stored row

text \<open>
  \<open>pushHistory\<close> up to the call of \<open>shouldSkipValue\<close>: it returns early (\<open>Inl\<close>) or
  reaches the policy with the entry, the cloned state, the table and the converted
  value (\<open>Inr\<close>).
\<close>

definition pushHistory_prepare ::
    "js_runtime \<Rightarrow> collaborators \<Rightarrow> adapter \<Rightarrow> string \<Rightarrow> raw_state \<Rightarrow> bool
      \<Rightarrow> (push_outcome + tracked_entry \<times> js_state \<times> table_info \<times> converted) \<times> adapter" where
  "pushHistory_prepare rt env s ident state allowCreate =
     (case (case tracked s ident of
              Some entry \<Rightarrow> Some (entry, s)
            | None \<Rightarrow> if \<not> allowCreate then None else Some (ensureEntryForId env s ident)) of
        None \<Rightarrow> (Inl NotTracked, s)
      | Some (entry0, s0) \<Rightarrow>
          (let clonedState = cloneState env state
           in if val clonedState = JUndefined then (Inl UndefinedValue, s0)
              else
                let entry = entry0\<lparr>lastState := Some clonedState\<rparr>;
                    s1 = s0\<lparr>tracked := (tracked s0)(ident \<mapsto> entry)\<rparr>
                in (case prepareValue rt (val clonedState) (config entry) of
                      Inl e \<Rightarrow> (Inl (CannotStore e), s1)
                    | Inr cv0 \<Rightarrow>
                        (case ensureTableFor env s1 ident (type' cv0) of
                           (Inl e, s2) \<Rightarrow> (Inl (CannotPrepare e), s2)
                         | (Inr tableInfo, s2) \<Rightarrow>
                             (case (if table_type tableInfo \<noteq> type' cv0
                                    then prepareValue rt (val clonedState)
                                           ((config entry)\<lparr>storageType := table_type tableInfo\<rparr>)
                                    else Inr cv0) of
                                Inl e \<Rightarrow> (Inl (CannotPrepare e), s2)
                              | Inr cv \<Rightarrow>
                                  if type' cv \<noteq> table_type tableInfo then (Inl TypeMismatch, s2)
                                  else (Inr (entry, clonedState, tableInfo, cv), s2))))))"

text \<open>
  \<open>pushHistory\<close> up to and with \<open>this._buffer.push(row)\<close> in \<open>queueRow\<close>: it ends
  without a row in the queue (\<open>Inl\<close>), or the row is queued (\<open>Inr\<close>).
\<close>

definition pushHistory_enqueue ::
    "js_runtime \<Rightarrow> collaborators \<Rightarrow> adapter \<Rightarrow> string \<Rightarrow> raw_state \<Rightarrow> bool \<Rightarrow> bool
      \<Rightarrow> (push_outcome + row \<times> tracked_entry \<times> js_state \<times> converted) \<times> adapter" where
  "pushHistory_enqueue rt env s ident state timerRelog allowCreate =
     (case pushHistory_prepare rt env s ident state allowCreate of
        (Inl outcome, s2) \<Rightarrow> (Inl outcome, s2)
      | (Inr (entry, clonedState, tableInfo, cv), s2) \<Rightarrow>
          (case shouldSkipValue rt entry cv clonedState timerRelog of
             (True, entry') \<Rightarrow> (Inl Skipped, s2\<lparr>tracked := (tracked s2)(ident \<mapsto> entry')\<rparr>)
           | (False, entry') \<Rightarrow>
               (case buildRow rt ident tableInfo cv clonedState of
                  Inl e \<Rightarrow> (Inl (Rejected e), s2\<lparr>tracked := (tracked s2)(ident \<mapsto> entry')\<rparr>)
                | Inr r \<Rightarrow>
                    (Inr (r, entry', clonedState, cv),
                     queueRow_push r (s2\<lparr>tracked := (tracked s2)(ident \<mapsto> entry')\<rparr>)))))"

text \<open>The rest of \<open>queueRow\<close>: the flush when the batch size is reached.\<close>

definition queueRow_flush :: "collaborators \<Rightarrow> adapter \<Rightarrow> (js_error + nat) \<times> adapter" where
  "queueRow_flush env s =
     (if real (length (buffer s)) \<ge> batchSize s then flushBuffer env False s else (Inr 0, s))"

text \<open>\<open>queueRow\<close> as a whole.\<close>

definition queueRow :: "collaborators \<Rightarrow> row \<Rightarrow> adapter \<Rightarrow> (js_error + nat) \<times> adapter" where
  "queueRow env r s = queueRow_flush env (queueRow_push r s)"

text \<open>The end of \<open>pushHistory\<close>, after \<open>await this.queueRow(row)\<close>.\<close>

definition pushHistory_store :: "tracked_entry \<Rightarrow> js_state \<Rightarrow> converted \<Rightarrow> tracked_entry" where
  "pushHistory_store entry clonedState cv =
     entry\<lparr>lastStoredState := Some \<lparr>val = value' cv, ts = ts clonedState, lc = lc clonedState,
                ack = ack clonedState, q = q clonedState, stored_type = type' cv,
                source = from' clonedState\<rparr>,
           lastStoredComparable := comparable cv,
           lastLogTime := ts clonedState,
           lastSkippedState := None,
           relogTimeout := (if changesRelogInterval (config entry) > 0
                            then Some (changesRelogInterval (config entry) * 1000) else None)\<rparr>"

text \<open>
  A call of \<open>pushHistory\<close> run to its end with nothing else scheduled in between.
\<close>

definition pushHistory ::
    "js_runtime \<Rightarrow> collaborators \<Rightarrow> adapter \<Rightarrow> string \<Rightarrow> raw_state \<Rightarrow> bool \<Rightarrow> bool
      \<Rightarrow> push_outcome \<times> adapter" where
  "pushHistory rt env s ident state timerRelog allowCreate =
     (case pushHistory_enqueue rt env s ident state timerRelog allowCreate of
        (Inl outcome, s3) \<Rightarrow> (outcome, s3)
      | (Inr (r, entry, clonedState, cv), s3) \<Rightarrow>
          (case queueRow_flush env s3 of
             (Inl e, s4) \<Rightarrow> (Rejected e, s4)
           | (Inr n, s4) \<Rightarrow>
               (Stored r,
                s4\<lparr>tracked := (tracked s4)(ident \<mapsto> pushHistory_store entry clonedState cv)\<rparr>)))"

section \<open>Notions used in the proofs and in the examples\<close>

text \<open>The value of a string of decimal digits.\<close>

definition digits_value :: "string \<Rightarrow> nat" where
  "digits_value ds = foldl (\<lambda>a c. 10 * a + (of_char c - 48)) 0 ds"

text \<open>The table names of a cache, and the counters whose candidate is among them.\<close>

definition cached_tables :: "table_cache \<Rightarrow> string set" where
  "cached_tables cache = (\<lambda>p. table (snd p)) ` set cache"

definition pending :: "table_cache \<Rightarrow> string \<Rightarrow> string \<Rightarrow> nat \<Rightarrow> nat set" where
  "pending cache p b counter = {k. counter \<le> k \<and> suffixed_candidate p b k \<in> cached_tables cache}"



text \<open>
  A runtime for the concrete examples. The examples stay where the model itself decides
  the result (integers, strings, the literal names of JSON), so that nothing depends on
  what these functions return.
\<close>

definition test_runtime :: js_runtime where
  "test_runtime =
     \<lparr>NumberToString = (\<lambda>x. []), StringToNumber = (\<lambda>s. None),
      ObjectToString = (\<lambda>v. ''[object Object]''), JSON_stringify = (\<lambda>v. ''{}''),
      JSON_parse = (\<lambda>s. None), toISOString = (\<lambda>t. ''1970-01-01T00:00:00.000Z'')\<rparr>"

text \<open>A numeric converted value, a state with a value and a time, a stored state.\<close>

definition number_cv :: "real \<Rightarrow> converted" where
  "number_cv x = \<lparr>type' = NUMBER, value' = JNum x, comparable = JNum x\<rparr>"

definition state_at :: "jsval \<Rightarrow> real \<Rightarrow> js_state" where
  "state_at v t = \<lparr>val = v, ts = t, lc = t, ack = JBool True, q = JNum 0, from' = JStr []\<rparr>"

definition stored_number :: "real \<Rightarrow> real \<Rightarrow> stored_state" where
  "stored_number x t =
     \<lparr>val = JNum x, ts = t, lc = t, ack = JBool True, q = JNum 0, stored_type = NUMBER,
      source = JStr []\<rparr>"

text \<open>A tracked point with the given policy whose last stored value is a number.\<close>

definition point_with :: "settings \<Rightarrow> real \<Rightarrow> real \<Rightarrow> tracked_entry" where
  "point_with st x t =
     \<lparr>entry_id = ''sensor.0.value'', config = st, relogTimeout = None, lastState = None,
      lastStoredState = Some (stored_number x t), lastStoredComparable = JNum x,
      lastLogTime = t, lastSkippedState = None, ephemeral = False\<rparr>"

text \<open>
  A row for a table, a connected adapter with an empty queue and no write in flight, and
  collaborators whose store rejects every insert into one table (no insert for the
  empty table name).
\<close>

definition row_for :: "string \<Rightarrow> string \<Rightarrow> row" where
  "row_for t v =
     \<lparr>table = t, table_type = STRING, row_id = ''sensor.0.value'',
      values' = \<lparr>values_ts = ''2024-01-01 00:00:00.000'', values_value = JStr v\<rparr>\<rparr>"

definition idle_adapter :: adapter where
  "idle_adapter =
     \<lparr>client = True, buffer = [], flushPromise = None, connected = True,
      tablePrefix = ''history'', tableCache = [], tracked = Map.empty, batchSize = 500\<rparr>"

definition store_rejecting :: "string \<Rightarrow> collaborators" where
  "store_rejecting t =
     \<lparr>now = 1700000000000, getForeignObject = (\<lambda>i. None), getForeignState = (\<lambda>i. None),
      client_command = (\<lambda>n. None), registry_insert = (\<lambda>i info. None),
      client_insert = (\<lambda>n vs. if n = t \<and> t \<noteq> [] then Some (Error ''insert failed'') else None)\<rparr>"

text \<open>
  A state as the host delivers it, and an adapter that tracks one identifier with the
  default policy and has a number table registered for it.
\<close>

definition raw_sample :: "jsval \<Rightarrow> real \<Rightarrow> raw_state" where
  "raw_sample v t =
     \<lparr>raw_val = v, raw_ts = JNum t, raw_lc = JNum t, raw_ack = JBool True, raw_q = JNum 0,
      raw_from = JStr ''system.adapter.admin.0''\<rparr>"

definition tracking_adapter :: adapter where
  "tracking_adapter =
     idle_adapter\<lparr>tracked := [''sensor.0.value'' \<mapsto> createEphemeralEntry ''sensor.0.value''],
       tableCache := [(''sensor.0.value'',
         \<lparr>table = ''history_sensor_0_value'', table_type = NUMBER\<rparr>)]\<rparr>"


text \<open>The filters of \<open>shouldSkipValue\<close> that come before the change detection.\<close>

definition early_skip :: "js_runtime \<Rightarrow> tracked_entry \<Rightarrow> converted \<Rightarrow> js_state \<Rightarrow> bool \<Rightarrow> bool" where
  "early_skip rt entry cv state timerRelog \<longleftrightarrow>
     (\<not> timerRelog \<and> blockTime (config entry) > 0
        \<and> (case lastStoredState entry of None \<Rightarrow> False
            | Some stored \<Rightarrow> ts state \<le> ts stored + blockTime (config entry)))
   \<or> (\<not> timerRelog \<and> ignoreZero (config entry)
        \<and> type' cv = NUMBER \<and> strict_equal (comparable cv) (JNum 0))
   \<or> (\<not> timerRelog \<and> ignoreZero (config entry) \<and> type' cv = NULL)
   \<or> (case ignoreBelowNumber (config entry) of None \<Rightarrow> False
       | Some belowNumber \<Rightarrow> type' cv = NUMBER \<and> js_less rt (comparable cv) belowNumber)
   \<or> (case ignoreAboveNumber (config entry) of None \<Rightarrow> False
       | Some aboveNumber \<Rightarrow> type' cv = NUMBER \<and> js_greater rt (comparable cv) aboveNumber)"

section \<open>Lemmas\<close>

subsection \<open>Decimal digits and the termination of the table name loop\<close>

lemma digit_char_value: "d < 10 \<Longrightarrow> of_char (digit_char d) - 48 = d"
proof -
  assume "d < 10"
  then have "d \<in> {0,1,2,3,4,5,6,7,8,9}" by auto
  then show ?thesis by (auto simp: digit_char_def)
qed

lemma digit_char_is_digit: "d < 10 \<Longrightarrow> is_digit (digit_char d)"
proof -
  assume "d < 10"
  then have "d \<in> {0,1,2,3,4,5,6,7,8,9}" by auto
  then show ?thesis by (auto simp: digit_char_def is_digit_def)
qed

lemma digits_value_snoc: "digits_value (ds @ [c]) = 10 * digits_value ds + (of_char c - 48)"
  by (simp add: digits_value_def)

lemma digits_value_decimal: "digits_value (decimal n) = n"
proof (induction n rule: decimal.induct)
  case (1 n)
  show ?case
  proof (cases "n < 10")
    case True
    then show ?thesis
      by (subst decimal.simps) (simp add: digits_value_def digit_char_value)
  next
    case False
    then have "digits_value (decimal (n div 10)) = n div 10" using 1 by simp
    with False show ?thesis
      by (subst decimal.simps) (simp add: digits_value_snoc digit_char_value)
  qed
qed

lemma decimal_inj: "decimal m = decimal n \<Longrightarrow> m = n"
  by (metis digits_value_decimal)

lemma decimal_digits: "c \<in> set (decimal n) \<Longrightarrow> is_digit c"
proof (induction n rule: decimal.induct)
  case (1 n)
  show ?case
  proof (cases "n < 10")
    case True
    with 1(2) show ?thesis
      by (subst (asm) decimal.simps) (simp add: digit_char_is_digit)
  next
    case False
    with 1 show ?thesis
      by (subst (asm) (2) decimal.simps) (auto simp: digit_char_is_digit)
  qed
qed

lemma decimal_length: "n < 10 ^ k \<Longrightarrow> 0 < k \<Longrightarrow> length (decimal n) \<le> k"
proof (induction n arbitrary: k rule: decimal.induct)
  case (1 n)
  show ?case
  proof (cases "n < 10")
    case True
    with 1(3) show ?thesis by (subst decimal.simps) simp
  next
    case False
    then obtain k' where k: "k = Suc k'" using 1(3) by (cases k) auto
    with False 1(2) have "0 < k'" by (cases k') auto
    moreover have "n div 10 < 10 ^ k'"
      using 1(2) k by (simp add: less_mult_imp_div_less mult.commute)
    ultimately have "length (decimal (n div 10)) \<le> k'" using 1(1) False by simp
    with False k show ?thesis by (subst decimal.simps) simp
  qed
qed

lemma is_digit_not_underscore: "is_digit c \<Longrightarrow> c \<noteq> CHR ''_''"
  by (auto simp: is_digit_def)

lemma suffixed_candidate_form:
  "\<exists>t. suffixed_candidate p b k = t @ CHR ''_'' # decimal k"
  by (simp add: suffixed_candidate_def Let_def)

lemma last_token:
  assumes "\<And>c. c \<in> set d \<Longrightarrow> c \<noteq> CHR ''_''"
  shows "rev (takeWhile (\<lambda>c. c \<noteq> CHR ''_'') (rev (t @ CHR ''_'' # d))) = d"
proof -
  have "takeWhile (\<lambda>c. c \<noteq> CHR ''_'') (rev d @ CHR ''_'' # rev t) = rev d"
    using assms by (simp add: takeWhile_tail)
  then show ?thesis by simp
qed

lemma suffixed_candidate_inj:
  assumes "suffixed_candidate p b j = suffixed_candidate p b k"
  shows "j = k"
proof -
  obtain t where t: "suffixed_candidate p b j = t @ CHR ''_'' # decimal j"
    using suffixed_candidate_form by blast
  obtain u where u: "suffixed_candidate p b k = u @ CHR ''_'' # decimal k"
    using suffixed_candidate_form by blast
  have "decimal j = rev (takeWhile (\<lambda>c. c \<noteq> CHR ''_'') (rev (t @ CHR ''_'' # decimal j)))"
    by (rule last_token [symmetric]) (auto dest: decimal_digits is_digit_not_underscore)
  also have "\<dots> = rev (takeWhile (\<lambda>c. c \<noteq> CHR ''_'') (rev (u @ CHR ''_'' # decimal k)))"
    using assms t u by simp
  also have "\<dots> = decimal k"
    by (rule last_token) (auto dest: decimal_digits is_digit_not_underscore)
  finally show ?thesis by (rule decimal_inj)
qed

lemma in_use_cached: "isTableNameInUse cache name ident \<Longrightarrow> name \<in> cached_tables cache"
proof -
  assume "isTableNameInUse cache name ident"
  then obtain k info where "map_of cache k = Some info" and "table info = name"
    by (auto simp: isTableNameInUse_def list_ex_iff split: option.splits)
  then have "(k, info) \<in> set cache" by (simp add: map_of_SomeD)
  with \<open>table info = name\<close> show ?thesis by (force simp: cached_tables_def)
qed

lemma finite_pending: "finite (pending cache p b counter)"
proof -
  have "inj (suffixed_candidate p b)"
    by (rule injI) (rule suffixed_candidate_inj)
  then have "finite (suffixed_candidate p b -` cached_tables cache)"
    by (intro finite_vimageI) (simp_all add: cached_tables_def)
  moreover have "pending cache p b counter \<subseteq> suffixed_candidate p b -` cached_tables cache"
    by (auto simp: pending_def)
  ultimately show ?thesis by (rule rev_finite_subset)
qed

lemma pending_step:
  "card (pending cache p b (counter + 1))
     + (if suffixed_candidate p b counter \<in> cached_tables cache then 1 else 0)
   = card (pending cache p b counter)"
proof (cases "suffixed_candidate p b counter \<in> cached_tables cache")
  case True
  have "pending cache p b counter = insert counter (pending cache p b (counter + 1))"
    using True by (auto simp: pending_def)
  moreover have "counter \<notin> pending cache p b (counter + 1)" by (simp add: pending_def)
  ultimately show ?thesis using True finite_pending by simp
next
  case False
  have "pending cache p b counter = pending cache p b (counter + 1)"
    using False by (auto simp: pending_def) (metis Suc_leI le_neq_implies_less)
  with False show ?thesis by simp
qed

termination generate_loop
proof (relation "measure (\<lambda>(cache, p, ident, b, candidate, counter).
    card (pending cache p b counter) + (if isTableNameInUse cache candidate ident then 1 else 0))",
    goal_cases)
  case 1
  show ?case by simp
next
  case (2 cache tablePrefix ident baseName candidate counter)
  have "(if isTableNameInUse cache (suffixed_candidate tablePrefix baseName counter) ident
         then 1 else 0)
      \<le> (if suffixed_candidate tablePrefix baseName counter \<in> cached_tables cache
          then 1 else (0::nat))"
    using in_use_cached by auto
  with pending_step [of cache tablePrefix baseName counter] 2 show ?case by simp
qed

declare generate_loop.simps [simp del]

subsection \<open>Type tags and converted values\<close>

lemma tags_distinct [simp]:
  "NUMBER \<noteq> STRING" "NUMBER \<noteq> BOOLEAN" "NUMBER \<noteq> JSON" "NUMBER \<noteq> NULL"
  "STRING \<noteq> NUMBER" "STRING \<noteq> BOOLEAN" "STRING \<noteq> JSON" "STRING \<noteq> NULL"
  "BOOLEAN \<noteq> NUMBER" "BOOLEAN \<noteq> STRING" "BOOLEAN \<noteq> JSON" "BOOLEAN \<noteq> NULL"
  "JSON \<noteq> NUMBER" "JSON \<noteq> STRING" "JSON \<noteq> BOOLEAN" "JSON \<noteq> NULL"
  "NULL \<noteq> NUMBER" "NULL \<noteq> STRING" "NULL \<noteq> BOOLEAN" "NULL \<noteq> JSON"
  by (simp_all add: NUMBER_def STRING_def BOOLEAN_def JSON_def NULL_def)





subsection \<open>The on-change reduction\<close>




subsection \<open>The filter chain and the frame of pushHistory\<close>

lemma if_merge: "(if a then x else if b then x else y) = (if a \<or> b then x else y)"
  by simp

lemma shouldSkipValue_chain:
  "shouldSkipValue rt entry cv state timerRelog =
     (if early_skip rt entry cv state timerRelog then (True, entry)
      else if \<not> timerRelog \<and> changesOnly (config entry) \<and> lastStoredState entry \<noteq> None
            \<and> \<not> valueChanged rt entry cv
      then (if (if changesRelogInterval (config entry) > 0
                then changesRelogInterval (config entry) * 1000 else 0) > 0
              \<and> (lastLogTime entry = 0
                  \<or> ts state - lastLogTime entry
                      \<ge> (if changesRelogInterval (config entry) > 0
                          then changesRelogInterval (config entry) * 1000 else 0))
            then (False, entry)
            else (True, if \<not> disableSkippedValueLogging (config entry)
                        then entry\<lparr>lastSkippedState := Some state\<rparr> else entry))
      else (False, entry))"
  unfolding shouldSkipValue_def early_skip_def Let_def
  by (simp only: if_merge disj_assoc)

lemma valuesEqual_fields:
  "lastStoredState e' = lastStoredState e \<Longrightarrow> lastStoredComparable e' = lastStoredComparable e
    \<Longrightarrow> valuesEqual rt cv e' = valuesEqual rt cv e"
  by (simp add: valuesEqual_def split: option.splits)

lemma valueChanged_changesOnly:
  "valueChanged rt (entry\<lparr>config := (config entry)\<lparr>changesOnly := b\<rparr>\<rparr>) cv = valueChanged rt entry cv"
  using valuesEqual_fields [of "entry\<lparr>config := (config entry)\<lparr>changesOnly := b\<rparr>\<rparr>" entry rt cv]
  by (simp add: valueChanged_def)

lemma early_skip_changesOnly:
  "early_skip rt (entry\<lparr>config := (config entry)\<lparr>changesOnly := b\<rparr>\<rparr>) cv state timerRelog
     = early_skip rt entry cv state timerRelog"
  by (simp add: early_skip_def cong: option.case_cong)

lemma changes_only_skip:
  assumes "fst (shouldSkipValue rt entry cv state timerRelog)"
    and "\<not> fst (shouldSkipValue rt (entry\<lparr>config := (config entry)\<lparr>changesOnly := False\<rparr>\<rparr>) cv state timerRelog)"
    and "\<not> disableSkippedValueLogging (config entry)"
  shows "shouldSkipValue rt entry cv state timerRelog = (True, entry\<lparr>lastSkippedState := Some state\<rparr>)"
proof -
  have "\<not> early_skip rt entry cv state timerRelog"
    using assms(2) unfolding shouldSkipValue_chain early_skip_changesOnly by (simp split: if_splits)
  with assms(1,3) show ?thesis
    unfolding shouldSkipValue_chain by (simp split: if_splits)
qed

lemma shouldSkipValue_accept: 
  "\<not> fst (shouldSkipValue rt entry cv state timerRelog) \<Longrightarrow> snd (shouldSkipValue rt entry cv state timerRelog) = entry"
  unfolding shouldSkipValue_chain by (auto split: if_splits)


lemma ensureEntryForId_frame:
  "buffer (snd (ensureEntryForId env s ident)) = buffer s
   \<and> batchSize (snd (ensureEntryForId env s ident)) = batchSize s"
  by (simp add: ensureEntryForId_def Let_def split: option.splits)

lemma ensureTableFor_frame:
  "buffer (snd (ensureTableFor env s ident t)) = buffer s
   \<and> batchSize (snd (ensureTableFor env s ident t)) = batchSize s
   \<and> tracked (snd (ensureTableFor env s ident t)) = tracked s"
  by (simp add: ensureTableFor_def Let_def split: option.splits)

lemma pushHistory_prepare_frame:
  "buffer (snd (pushHistory_prepare rt env s ident state allowCreate)) = buffer s
   \<and> batchSize (snd (pushHistory_prepare rt env s ident state allowCreate)) = batchSize s"
  unfolding pushHistory_prepare_def Let_def
  using ensureEntryForId_frame [of env s ident] ensureTableFor_frame
  by (auto split: option.splits sum.splits prod.splits if_splits simp: split_beta)

lemma buildRow_valid:
  "\<bar>ts cl\<bar> \<le> 8640000000000000 \<Longrightarrow> \<exists>r. buildRow rt ident info cv cl = Inr r"
  by (simp add: buildRow_def formatDateTime_def Let_def)

lemma shouldSkipValue_accept_eq:
  "\<not> fst (shouldSkipValue rt entry cv state timerRelog)
    \<Longrightarrow> shouldSkipValue rt entry cv state timerRelog = (False, entry)"
  using shouldSkipValue_accept [of rt entry cv state timerRelog]
  by (cases "shouldSkipValue rt entry cv state timerRelog") simp

lemma cloneState_raw_sample:
  "cloneState env (raw_sample v t)
     = \<lparr>val = v, ts = t, lc = t, ack = JBool True, q = JNum 0,
        from' = JStr ''system.adapter.admin.0''\<rparr>"
  by (simp add: cloneState_def raw_sample_def)

lemma prepare_example:
  assumes "config e = defaults"
  shows "pushHistory_prepare test_runtime (store_rejecting [])
      (tracking_adapter\<lparr>tracked := [''sensor.0.value'' \<mapsto> e]\<rparr>) ''sensor.0.value''
      (raw_sample (JNum x) t) False
   = (Inr (e\<lparr>lastState := Some (cloneState (store_rejecting []) (raw_sample (JNum x) t))\<rparr>,
           cloneState (store_rejecting []) (raw_sample (JNum x) t),
           \<lparr>table = ''history_sensor_0_value'', table_type = NUMBER\<rparr>,
           number_cv x),
      tracking_adapter\<lparr>tracked := [''sensor.0.value'' \<mapsto>
             e\<lparr>lastState := Some (cloneState (store_rejecting []) (raw_sample (JNum x) t))\<rparr>]\<rparr>)"
  using assms
  by (simp add: pushHistory_prepare_def tracking_adapter_def idle_adapter_def
      cloneState_raw_sample defaults_def prepareValue_def autoDetect_def
      toLowerCase_def lower_char_def toRoundedNumber_def ensureTableFor_def number_cv_def Let_def)

lemma tracking_adapter_tracked:
  "tracking_adapter\<lparr>tracked := [''sensor.0.value'' \<mapsto> createEphemeralEntry ''sensor.0.value'']\<rparr>
     = tracking_adapter"
  by (simp add: tracking_adapter_def)

lemma prepare_first_sample:
  "pushHistory_prepare test_runtime (store_rejecting []) tracking_adapter ''sensor.0.value''
      (raw_sample (JNum x) t) False
   = (Inr ((createEphemeralEntry ''sensor.0.value'')
             \<lparr>lastState := Some (cloneState (store_rejecting []) (raw_sample (JNum x) t))\<rparr>,
           cloneState (store_rejecting []) (raw_sample (JNum x) t),
           \<lparr>table = ''history_sensor_0_value'', table_type = NUMBER\<rparr>,
           number_cv x),
      tracking_adapter\<lparr>tracked := [''sensor.0.value'' \<mapsto>
             (createEphemeralEntry ''sensor.0.value'')
               \<lparr>lastState := Some (cloneState (store_rejecting []) (raw_sample (JNum x) t))\<rparr>]\<rparr>)"
proof -
  have "config (createEphemeralEntry ''sensor.0.value'') = defaults"
    by (simp add: createEphemeralEntry_def)
  from prepare_example [OF this, of x t] show ?thesis
    unfolding tracking_adapter_tracked .
qed

subsection \<open>The two sanitizers\<close>

lemma replace_runs_chars:
  assumes "\<And>c. c \<in> set s \<Longrightarrow> \<not> P c \<Longrightarrow> Q c" and "Q (CHR ''_'')"
  shows "c \<in> set (replace_runs P s) \<Longrightarrow> Q c"
  using assms(1)
proof (induction P s arbitrary: c rule: replace_runs.induct)
  case (1 P)
  then show ?case by simp
next
  case (2 P x)
  then show ?case using assms(2) by (auto split: if_splits)
next
  case (3 P x d cs)
  then show ?case using assms(2) by (auto split: if_splits)
qed

lemma strip_trailing_prefix: "\<exists>rest. s = strip_trailing s @ rest"
proof -
  have "rev s = takeWhile is_underscore (rev s) @ dropWhile is_underscore (rev s)" by simp
  then have "s = rev (dropWhile is_underscore (rev s)) @ rev (takeWhile is_underscore (rev s))"
    by (metis rev_append rev_rev_ident)
  then show ?thesis unfolding strip_trailing_def by blast
qed

lemma strip_trailing_set: "set (strip_trailing s) \<subseteq> set s"
  using strip_trailing_prefix [of s] by (metis Un_upper1 set_append)

lemma strip_trailing_length: "length (strip_trailing s) \<le> length s"
  using strip_trailing_prefix [of s] by (metis le_add1 length_append)

lemma strip_trailing_hd:
  assumes "s \<noteq> []" and "\<not> is_underscore (hd s)"
  shows "strip_trailing s \<noteq> [] \<and> hd (strip_trailing s) = hd s"
proof -
  have "\<not> (\<forall>c \<in> set (rev s). is_underscore c)"
    using assms by (metis hd_in_set set_rev)
  then have "dropWhile is_underscore (rev s) \<noteq> []" by (simp add: dropWhile_eq_Nil_conv)
  then have ne: "strip_trailing s \<noteq> []" by (simp add: strip_trailing_def)
  moreover obtain rest where "s = strip_trailing s @ rest" using strip_trailing_prefix by blast
  ultimately have "hd s = hd (strip_trailing s)" by (metis hd_append2)
  with ne show ?thesis by simp
qed

lemma strip_leading_set: "set (strip_leading s) \<subseteq> set s"
  unfolding strip_leading_def by (rule set_dropWhileD [THEN subsetI])

lemma strip_leading_hd: "strip_leading s \<noteq> [] \<Longrightarrow> \<not> is_underscore (hd (strip_leading s))"
  unfolding strip_leading_def by (rule hd_dropWhile)

lemma is_digit_word: "is_digit c \<Longrightarrow> is_word_char c"
  by (auto simp: is_digit_def is_word_char_def Let_def)

lemma underscore_word: "is_word_char (CHR ''_'')"
  by (simp add: is_word_char_def)

text \<open>What both sanitizers produce before the defaults are filled in.\<close>

lemma stripped_core:
  assumes "\<And>c. c \<in> set s \<Longrightarrow> is_word_char c"
    and "t = strip_trailing (strip_leading s)"
  shows "(\<forall>c \<in> set t. is_word_char c) \<and> (t \<noteq> [] \<longrightarrow> \<not> is_underscore (hd t))"
proof -
  have "set t \<subseteq> set s"
    using assms(2) strip_trailing_set strip_leading_set by blast
  moreover have "\<not> is_underscore (hd t)" if "t \<noteq> []"
  proof -
    have ne: "strip_leading s \<noteq> []" using that assms(2) by (auto simp: strip_trailing_def)
    then have "\<not> is_underscore (hd (strip_leading s))" by (rule strip_leading_hd)
    with ne show ?thesis using strip_trailing_hd assms(2) by simp
  qed
  ultimately show ?thesis using assms(1) by auto
qed

lemma history_word: "c \<in> set ''history'' \<Longrightarrow> is_word_char c"
  by (auto simp: is_word_char_def)

lemma sanitizeTablePrefix_cases:
  "sanitizeTablePrefix raw = ''history''
   \<or> (sanitizeTablePrefix raw
          = strip_trailing (strip_leading (replace_runs (\<lambda>c. \<not> is_word_char c) (trim raw)))
      \<and> strip_trailing (strip_leading (replace_runs (\<lambda>c. \<not> is_word_char c) (trim raw))) \<noteq> [])"
  unfolding sanitizeTablePrefix_def Let_def
  by (cases "raw = []";
      cases "strip_trailing (strip_leading (replace_runs (\<lambda>c. \<not> is_word_char c) (trim raw))) = []")
    (simp_all only: if_True if_False not_not simp_thms)


lemma sanitizeTablePrefix_ok:
  "(\<forall>c \<in> set (sanitizeTablePrefix raw). is_word_char c)
   \<and> sanitizeTablePrefix raw \<noteq> [] \<and> \<not> is_underscore (hd (sanitizeTablePrefix raw))"
proof -
  let ?s = "replace_runs (\<lambda>c. \<not> is_word_char c) (trim raw)"
  let ?t = "strip_trailing (strip_leading ?s)"
  have w: "\<And>c. c \<in> set ?s \<Longrightarrow> is_word_char c"
    by (rule replace_runs_chars [where P = "\<lambda>c. \<not> is_word_char c"]) (auto simp: underscore_word)
  have h: "(\<forall>c \<in> set ''history''. is_word_char c) \<and> ''history'' \<noteq> []
      \<and> \<not> is_underscore (hd ''history'')"
    using history_word by (simp add: is_underscore_def)
  from sanitizeTablePrefix_cases [of raw] show ?thesis
  proof
    assume eq: "sanitizeTablePrefix raw = ''history''"
    show ?thesis unfolding eq by (rule h)
  next
    assume a: "sanitizeTablePrefix raw = ?t \<and> ?t \<noteq> []"
    then have eq: "sanitizeTablePrefix raw = ?t" and ne: "?t \<noteq> []" by blast+
    from stripped_core [OF w refl] ne show ?thesis unfolding eq by blast
  qed
qed

lemma state_word: "c \<in> set ''state'' \<Longrightarrow> is_word_char c"
  by (auto simp: is_word_char_def)

lemma sanitizeDatapointIdentifier_ok:
  "(\<forall>c \<in> set (sanitizeDatapointIdentifier ident). is_word_char c)
   \<and> sanitizeDatapointIdentifier ident \<noteq> []
   \<and> \<not> is_digit (hd (sanitizeDatapointIdentifier ident))
   \<and> \<not> is_underscore (hd (sanitizeDatapointIdentifier ident))
   \<and> length (sanitizeDatapointIdentifier ident) \<le> 48"
proof -
  define u where "u = replace_runs is_underscore (replace_runs (\<lambda>c. \<not> is_word_char c) (trim ident))"
  define t where "t = strip_trailing (strip_leading u)"
  define a where "a = (if t = [] then ''state'' else t)"
  define b where "b = (if is_digit (hd a) then ''s_'' @ a else a)"
  have sid: "sanitizeDatapointIdentifier ident = (if length b > 48 then take 48 b else b)"
    unfolding sanitizeDatapointIdentifier_def Let_def b_def a_def t_def u_def ..
  have w0: "\<And>c. c \<in> set (replace_runs (\<lambda>c. \<not> is_word_char c) (trim ident)) \<Longrightarrow> is_word_char c"
    by (rule replace_runs_chars [where P = "\<lambda>c. \<not> is_word_char c"]) (auto simp: underscore_word)
  have wu: "\<And>c. c \<in> set u \<Longrightarrow> is_word_char c"
    unfolding u_def
    by (rule replace_runs_chars [where P = is_underscore]) (auto simp: underscore_word w0)
  have ct: "(\<forall>c \<in> set t. is_word_char c) \<and> (t \<noteq> [] \<longrightarrow> \<not> is_underscore (hd t))"
    using stripped_core [OF wu t_def] .
  have st: "(\<forall>c \<in> set ''state''. is_word_char c) \<and> ''state'' \<noteq> []
      \<and> \<not> is_underscore (hd ''state'')"
    using state_word by (simp add: is_underscore_def)
  have ca: "(\<forall>c \<in> set a. is_word_char c) \<and> a \<noteq> [] \<and> \<not> is_underscore (hd a)"
  proof (cases "t = []")
    case True
    then have eq: "a = ''state''" by (simp add: a_def)
    show ?thesis unfolding eq by (rule st)
  next
    case False
    then have "a = t" by (simp add: a_def)
    with False ct show ?thesis by blast
  qed
  have s_word: "is_word_char (CHR ''s'')" by (simp add: is_word_char_def)
  have s_nd: "\<not> is_digit (CHR ''s'') \<and> \<not> is_underscore (CHR ''s'')"
    by (simp add: is_digit_def is_underscore_def)
  have cb: "(\<forall>c \<in> set b. is_word_char c) \<and> b \<noteq> [] \<and> \<not> is_digit (hd b)
      \<and> \<not> is_underscore (hd b)"
  proof (cases "is_digit (hd a)")
    case True
    then have "b = CHR ''s'' # CHR ''_'' # a" by (simp add: b_def)
    then show ?thesis using ca s_word s_nd underscore_word by simp
  next
    case False
    then have "b = a" by (simp add: b_def)
    with False ca show ?thesis by blast
  qed
  show ?thesis
  proof (cases "length b > 48")
    case True
    then have eq: "sanitizeDatapointIdentifier ident = take 48 b" using sid by simp
    have "set (take 48 b) \<subseteq> set b" by (rule set_take_subset)
    moreover have "take 48 b \<noteq> []" using cb by simp
    moreover have "hd (take 48 b) = hd b" by (simp add: hd_take)
    ultimately show ?thesis unfolding eq using cb by auto
  next
    case False
    then have eq: "sanitizeDatapointIdentifier ident = b" using sid by simp
    show ?thesis unfolding eq using cb False by simp
  qed
qed

subsection \<open>The table name loop\<close>

lemma generate_loop_not_in_use:
  "\<not> isTableNameInUse cache (generate_loop cache p ident b candidate counter) ident"
proof (induction cache p ident b candidate counter rule: generate_loop.induct)
  case (1 cache p ident b candidate counter)
  then show ?case by (subst generate_loop.simps) simp
qed

lemma generate_loop_result:
  "(generate_loop cache p ident b candidate counter = candidate
      \<and> \<not> isTableNameInUse cache candidate ident)
   \<or> (isTableNameInUse cache candidate ident
      \<and> (\<exists>k \<ge> counter. generate_loop cache p ident b candidate counter = suffixed_candidate p b k
            \<and> (\<forall>j. counter \<le> j \<and> j < k \<longrightarrow> isTableNameInUse cache (suffixed_candidate p b j) ident)))"
proof (induction cache p ident b candidate counter rule: generate_loop.induct)
  case (1 cache p ident b candidate counter)
  show ?case
  proof (cases "isTableNameInUse cache candidate ident")
    case False
    then show ?thesis by (subst generate_loop.simps) simp
  next
    case True
    have step: "generate_loop cache p ident b candidate counter
        = generate_loop cache p ident b (suffixed_candidate p b counter) (counter + 1)"
      using True by (subst generate_loop.simps) simp
    from 1 [OF True] show ?thesis
    proof
      assume "generate_loop cache p ident b (suffixed_candidate p b counter) (counter + 1)
            = suffixed_candidate p b counter
          \<and> \<not> isTableNameInUse cache (suffixed_candidate p b counter) ident"
      with step True show ?thesis by auto
    next
      assume "isTableNameInUse cache (suffixed_candidate p b counter) ident
          \<and> (\<exists>k \<ge> counter + 1.
                generate_loop cache p ident b (suffixed_candidate p b counter) (counter + 1)
                  = suffixed_candidate p b k
              \<and> (\<forall>j. counter + 1 \<le> j \<and> j < k
                    \<longrightarrow> isTableNameInUse cache (suffixed_candidate p b j) ident))"
      then obtain k where u: "isTableNameInUse cache (suffixed_candidate p b counter) ident"
        and k: "counter + 1 \<le> k"
          "generate_loop cache p ident b (suffixed_candidate p b counter) (counter + 1)
             = suffixed_candidate p b k"
          "\<forall>j. counter + 1 \<le> j \<and> j < k \<longrightarrow> isTableNameInUse cache (suffixed_candidate p b j) ident"
        by blast
      have "\<forall>j. counter \<le> j \<and> j < k \<longrightarrow> isTableNameInUse cache (suffixed_candidate p b j) ident"
      proof (intro allI impI)
        fix j assume "counter \<le> j \<and> j < k"
        then consider "j = counter" | "counter + 1 \<le> j \<and> j < k" by linarith
        then show "isTableNameInUse cache (suffixed_candidate p b j) ident"
          using u k(3) by cases auto
      qed
      with step True k(1,2) show ?thesis
        by (intro disjI2 conjI exI [of _ k]) auto
    qed
  qed
qed

lemma counter_bound:
  assumes "\<forall>j. 1 \<le> j \<and> j < k \<longrightarrow> isTableNameInUse cache (suffixed_candidate p b j) ident"
  shows "k \<le> length cache + 1"
proof -
  have sub: "suffixed_candidate p b ` {1..<k} \<subseteq> cached_tables cache"
    using assms in_use_cached by auto
  have fin: "finite (cached_tables cache)" by (simp add: cached_tables_def)
  have "inj_on (suffixed_candidate p b) {1..<k}"
    by (rule inj_onI) (rule suffixed_candidate_inj)
  then have "card (suffixed_candidate p b ` {1..<k}) = k - 1"
    by (simp add: card_image)
  moreover have "card (suffixed_candidate p b ` {1..<k}) \<le> card (cached_tables cache)"
    using sub fin by (rule card_mono [rotated])
  moreover have "card (cached_tables cache) \<le> length cache"
    unfolding cached_tables_def by (metis card_image_le card_length le_trans List.finite_set)
  ultimately show ?thesis by linarith
qed

lemma suffixed_candidate_ok:
  assumes pw: "\<forall>c \<in> set p. is_word_char c" and pne: "p \<noteq> []" and pu: "\<not> is_underscore (hd p)"
    and b: "b = p @ ''_'' @ sid" and sw: "\<forall>c \<in> set sid. is_word_char c"
    and k: "k < 10 ^ 16"
  shows "(\<forall>c \<in> set (suffixed_candidate p b k). is_word_char c)
     \<and> suffixed_candidate p b k \<noteq> []
     \<and> hd (suffixed_candidate p b k) = hd p
     \<and> length (suffixed_candidate p b k) \<le> 62"
proof -
  define suffix where "suffix = ''_'' @ decimal k"
  define m where "m = max 1 (62 - length suffix)"
  define tr0 where "tr0 = (if length b > m then strip_trailing (take m b) else b)"
  define tr where "tr = (if tr0 = [] then take (max 1 m) p else tr0)"
  have sc: "suffixed_candidate p b k = tr @ suffix"
    unfolding suffixed_candidate_def Let_def tr_def tr0_def m_def suffix_def ..
  have "length (decimal k) \<le> 16" using k by (intro decimal_length) simp_all
  then have ls: "length suffix \<le> 17" by (simp add: suffix_def)
  then have m: "m = 62 - length suffix" "1 \<le> m" "m + length suffix = 62"
    by (simp_all add: m_def)
  have sufw: "\<forall>c \<in> set suffix. is_word_char c"
    using decimal_digits is_digit_word underscore_word by (auto simp: suffix_def)
  have bw: "\<forall>c \<in> set b. is_word_char c"
    using pw sw underscore_word by (auto simp: b)
  have bh: "b \<noteq> [] \<and> hd b = hd p" using pne by (simp add: b)
  have t0: "(\<forall>c \<in> set tr0. is_word_char c) \<and> tr0 \<noteq> [] \<and> hd tr0 = hd p \<and> length tr0 \<le> m"
  proof (cases "length b > m")
    case True
    then have eq: "tr0 = strip_trailing (take m b)" by (simp add: tr0_def)
    have tn: "take m b \<noteq> []" using bh m(2) by (cases b) auto
    have th: "hd (take m b) = hd p" using bh m(2) by (simp add: hd_take)
    then have "\<not> is_underscore (hd (take m b))" using pu by simp
    from strip_trailing_hd [OF tn this]
    have "strip_trailing (take m b) \<noteq> [] \<and> hd (strip_trailing (take m b)) = hd p"
      using th by simp
    moreover have "set (strip_trailing (take m b)) \<subseteq> set b"
      using strip_trailing_set [of "take m b"] set_take_subset [of m b] by blast
    moreover have "length (strip_trailing (take m b)) \<le> m"
      using strip_trailing_length [of "take m b"] by simp
    ultimately show ?thesis unfolding eq using bw by blast
  next
    case False
    then have eq: "tr0 = b" by (simp add: tr0_def)
    show ?thesis unfolding eq using bw bh False by simp
  qed
  then have tr: "tr = tr0" by (simp add: tr_def)
  show ?thesis
    unfolding sc tr using t0 sufw m(3) by auto
qed

lemma normalizeLength_ok:
  assumes "\<forall>c \<in> set b. is_word_char c" and "b \<noteq> []"
  shows "(\<forall>c \<in> set (normalizeLength b). is_word_char c) \<and> normalizeLength b \<noteq> []
     \<and> hd (normalizeLength b) = hd b \<and> length (normalizeLength b) \<le> 62"
proof (cases "length b \<le> 62")
  case True
  then have "normalizeLength b = b" by (simp add: normalizeLength_def)
  with assms True show ?thesis by simp
next
  case False
  then have eq: "normalizeLength b = take 62 b" by (simp add: normalizeLength_def)
  have "set (take 62 b) \<subseteq> set b" by (rule set_take_subset)
  moreover have "take 62 b \<noteq> []" using assms(2) by simp
  moreover have "hd (take 62 b) = hd b" by (simp add: hd_take)
  ultimately show ?thesis unfolding eq using assms(1) by auto
qed

lemmas sanitize_eval = sanitizeDatapointIdentifier_def sanitizeTablePrefix_def strip_trailing_def
  strip_leading_def trim_def is_space_def is_word_char_def is_underscore_def is_digit_def Let_def

lemma table_name_first: "generateTableName ''history'' [] ''3abc!!def'' = ''history_s_3abc_def''"
  by (simp add: generateTableName_def sanitize_eval normalizeLength_def generate_loop.simps
      isTableNameInUse_def)

lemma table_name_second: "generateTableName ''history''
      [(''3abc!!def'', \<lparr>table = ''history_s_3abc_def'', table_type = NUMBER\<rparr>)] ''3abc??def''
    = ''history_s_3abc_def_1''"
  by (simp add: generateTableName_def sanitize_eval normalizeLength_def generate_loop.simps
      isTableNameInUse_def suffixed_candidate_def decimal.simps digit_char_def)

lemma table_name_digit_prefix: "generateTableName (sanitizeTablePrefix ''2024'') [] ''temp'' = ''2024_temp''"
  by (simp add: generateTableName_def sanitize_eval normalizeLength_def generate_loop.simps
      isTableNameInUse_def)

lemma not_in_use_distinct:
  assumes "\<not> isTableNameInUse cache name ident"
    and "map_of cache other = Some info" and "other \<noteq> ident"
  shows "table info \<noteq> name"
proof
  assume eq: "table info = name"
  have "(other, info) \<in> set cache" using assms(2) by (rule map_of_SomeD)
  then have mem: "other \<in> set (map fst cache)" by force
  have "isTableNameInUse cache name ident"
    unfolding isTableNameInUse_def list_ex_iff
    by (rule bexI [OF _ mem]) (simp add: assms(2,3) eq)
  with assms(1) show False by simp
qed

section \<open>The claims\<close>



text \<open>
  C7. Unconditional range clamp: a numeric converted sample that is below the configured
  lower bound or above the configured upper bound is skipped, whatever \<open>timerRelog\<close>
  is; and on a relog (\<open>timerRelog\<close> true) the sample is skipped only for that reason,
  since the spacing, zero/null and change-only filters are bypassed there.
\<close>

theorem range_clamp_unconditional:
  assumes "type' cv = NUMBER" and "comparable cv = JNum x"
  shows "((\<exists>b. ignoreBelowNumber (config entry) = Some b \<and> x < b)
            \<or> (\<exists>a. ignoreAboveNumber (config entry) = Some a \<and> a < x)
          \<longrightarrow> fst (shouldSkipValue rt entry cv state timerRelog))
       \<and> (fst (shouldSkipValue rt entry cv state True)
          \<longleftrightarrow> (\<exists>b. ignoreBelowNumber (config entry) = Some b \<and> x < b)
            \<or> (\<exists>a. ignoreAboveNumber (config entry) = Some a \<and> a < x))"
  using assms
  by (auto simp: shouldSkipValue_def Let_def js_less_def js_greater_def split: option.splits)

theorem range_clamp_unconditional_witness:
  "fst (shouldSkipValue test_runtime
          (point_with (defaults\<lparr>ignoreBelowNumber := Some 0, ignoreZero := True\<rparr>) 1 0)
          (number_cv (- 5)) (state_at (JNum (- 5)) 1000) True)
   \<and> \<not> fst (shouldSkipValue test_runtime
          (point_with (defaults\<lparr>ignoreBelowNumber := Some 0, ignoreZero := True\<rparr>) 1 0)
          (number_cv 0) (state_at (JNum 0) 1000) True)"
  using range_clamp_unconditional [of "number_cv (- 5)" "- 5"
      "point_with (defaults\<lparr>ignoreBelowNumber := Some 0, ignoreZero := True\<rparr>) 1 0"
      test_runtime "state_at (JNum (- 5)) 1000" True]
    range_clamp_unconditional [of "number_cv 0" 0
      "point_with (defaults\<lparr>ignoreBelowNumber := Some 0, ignoreZero := True\<rparr>) 1 0"
      test_runtime "state_at (JNum 0) 1000" True]
  by (simp add: number_cv_def point_with_def defaults_def)






subsection \<open>The flush coordinator\<close>




text \<open>The write of a flush fails exactly when one of its inserts is rejected.\<close>

lemma write_tables_rejected:
  "write_tables ins grouped written = Inl e
    \<Longrightarrow> \<exists>t vs. (t, vs) \<in> set grouped \<and> vs \<noteq> [] \<and> ins t vs = Some e"
proof (induction ins grouped written rule: write_tables.induct)
  case (1 ins written)
  then show ?case by simp
next
  case (2 ins t vs rest written)
  then show ?case by (auto split: if_splits option.splits)
qed

lemma write_tables_fails:
  "(t, vs) \<in> set grouped \<Longrightarrow> vs \<noteq> [] \<Longrightarrow> ins t vs \<noteq> None
    \<Longrightarrow> \<exists>e. write_tables ins grouped written = Inl e"
proof (induction ins grouped written rule: write_tables.induct)
  case (1 ins written)
  then show ?case by simp
next
  case (2 ins t' vs' rest written)
  then show ?case by (auto split: if_splits option.splits)
qed

text \<open>
  C2. Flush failure: when the write of a flush fails, the rows that the flush took from
  the queue are put back at the front of the queue in their order, before the rows that
  were queued during the attempt; the connected flag is false; and the promise of the
  flush is rejected with the error, which is what the caller of \<open>flushBuffer\<close> gets.
\<close>

theorem flush_failure_requeues:
  assumes "flushBuffer_start s0 = (Some rows, s1)"
    and "write_tables (client_insert env) (group_rows rows []) 0 = Inl e"
  shows "rows = buffer s0 \<and> buffer s1 = []
     \<and> flush_settle env rows (s1\<lparr>buffer := queued\<rparr>)
        = (Inl e, s1\<lparr>buffer := rows @ queued, connected := False, flushPromise := None\<rparr>)
     \<and> (client s0 \<and> flushPromise s0 = None
        \<longrightarrow> flushBuffer env force s0
            = (Inl e, s0\<lparr>connected := False, flushPromise := None\<rparr>))"
proof -
  from assms(1) have rows: "rows = buffer s0" and ne: "buffer s0 \<noteq> []"
    and s1: "s1 = s0\<lparr>buffer := [], flushPromise := Some (buffer s0)\<rparr>"
    by (auto simp: flushBuffer_start_def split: if_splits)
  have settle: "flush_settle env rows (s1\<lparr>buffer := queued\<rparr>)
        = (Inl e, s1\<lparr>buffer := rows @ queued, connected := False, flushPromise := None\<rparr>)"
    using assms(2) by (simp add: flush_settle_def)
  have "flushBuffer env force s0 = (Inl e, s0\<lparr>connected := False, flushPromise := None\<rparr>)"
    if "client s0" and "flushPromise s0 = None"
    using that ne assms(2) rows
    by (simp add: flushBuffer_def flushBuffer_call_def flushBuffer_start_def flush_settle_def)
  with rows s1 settle show ?thesis by simp
qed

theorem flush_failure_requeues_witness:
  "flush_settle (store_rejecting ''history_b'')
      [row_for ''history_a'' ''1'', row_for ''history_b'' ''2'', row_for ''history_a'' ''3'']
      (idle_adapter\<lparr>buffer := [row_for ''history_a'' ''4''],
         flushPromise := Some [row_for ''history_a'' ''1'', row_for ''history_b'' ''2'',
           row_for ''history_a'' ''3'']\<rparr>)
   = (Inl (Error ''insert failed''),
      idle_adapter\<lparr>buffer := [row_for ''history_a'' ''1'', row_for ''history_b'' ''2'',
           row_for ''history_a'' ''3'', row_for ''history_a'' ''4''],
         connected := False, flushPromise := None\<rparr>)"
proof -
  let ?rows = "[row_for ''history_a'' ''1'', row_for ''history_b'' ''2'', row_for ''history_a'' ''3'']"
  have start: "flushBuffer_start (idle_adapter\<lparr>buffer := ?rows\<rparr>)
      = (Some ?rows, idle_adapter\<lparr>buffer := [], flushPromise := Some ?rows\<rparr>)"
    by (simp add: flushBuffer_start_def idle_adapter_def)
  have fails: "write_tables (client_insert (store_rejecting ''history_b'')) (group_rows ?rows []) 0
      = Inl (Error ''insert failed'')"
    by (simp add: store_rejecting_def row_for_def Let_def)
  show ?thesis
    using flush_failure_requeues [OF start fails, of "[row_for ''history_a'' ''4'']"]
    by (simp add: idle_adapter_def)
qed




subsection \<open>The value normalizer\<close>




subsection \<open>pushHistory\<close>

text \<open>
  C5, as the claim states it, fails: a sample with the timestamp \<open>1e16\<close> reaches the
  policy engine and is accepted by it, but \<open>formatDateTime\<close> throws a RangeError on
  that timestamp (it is no valid date), \<open>pushHistory\<close> is rejected, and no row is
  appended to the queue.
\<close>

theorem row_count_counterexample:
  "fst (pushHistory_prepare test_runtime (store_rejecting []) tracking_adapter ''sensor.0.value''
          (raw_sample (JNum (43 / 2)) 10000000000000000) False)
     = Inr ((createEphemeralEntry ''sensor.0.value'')
               \<lparr>lastState := Some ((state_at (JNum (43 / 2)) 10000000000000000)
                   \<lparr>from' := JStr ''system.adapter.admin.0''\<rparr>)\<rparr>,
            (state_at (JNum (43 / 2)) 10000000000000000)\<lparr>from' := JStr ''system.adapter.admin.0''\<rparr>,
            \<lparr>table = ''history_sensor_0_value'', table_type = NUMBER\<rparr>, number_cv (43 / 2))
   \<and> \<not> fst (shouldSkipValue test_runtime
          ((createEphemeralEntry ''sensor.0.value'')
               \<lparr>lastState := Some ((state_at (JNum (43 / 2)) 10000000000000000)
                   \<lparr>from' := JStr ''system.adapter.admin.0''\<rparr>)\<rparr>)
          (number_cv (43 / 2))
          ((state_at (JNum (43 / 2)) 10000000000000000)\<lparr>from' := JStr ''system.adapter.admin.0''\<rparr>)
          False)
   \<and> fst (pushHistory test_runtime (store_rejecting []) tracking_adapter ''sensor.0.value''
          (raw_sample (JNum (43 / 2)) 10000000000000000) False False)
     = Rejected (RangeError ''Invalid time value'')
   \<and> buffer (snd (pushHistory test_runtime (store_rejecting []) tracking_adapter ''sensor.0.value''
          (raw_sample (JNum (43 / 2)) 10000000000000000) False False))
     = buffer tracking_adapter"
proof -
  let ?cl = "cloneState (store_rejecting []) (raw_sample (JNum (43 / 2)) 10000000000000000)"
  let ?e = "(createEphemeralEntry ''sensor.0.value'')\<lparr>lastState := Some ?cl\<rparr>"
  have cl: "?cl = (state_at (JNum (43 / 2)) 10000000000000000)\<lparr>from' := JStr ''system.adapter.admin.0''\<rparr>"
    by (simp add: cloneState_raw_sample state_at_def)
  have prep: "pushHistory_prepare test_runtime (store_rejecting []) tracking_adapter
        ''sensor.0.value'' (raw_sample (JNum (43 / 2)) 10000000000000000) False
      = (Inr (?e, ?cl, \<lparr>table = ''history_sensor_0_value'', table_type = NUMBER\<rparr>,
           number_cv (43 / 2)),
         tracking_adapter\<lparr>tracked := [''sensor.0.value'' \<mapsto> ?e]\<rparr>)"
    by (rule prepare_first_sample)
  have acc: "\<not> fst (shouldSkipValue test_runtime ?e (number_cv (43 / 2)) ?cl False)"
    by (simp add: shouldSkipValue_chain early_skip_def createEphemeralEntry_def defaults_def)
  have ts: "ts ?cl = 10000000000000000" by (simp add: cloneState_raw_sample)
  have push: "pushHistory test_runtime (store_rejecting []) tracking_adapter ''sensor.0.value''
        (raw_sample (JNum (43 / 2)) 10000000000000000) False False
      = (Rejected (RangeError ''Invalid time value''),
         tracking_adapter\<lparr>tracked := [''sensor.0.value'' \<mapsto> ?e]\<rparr>)"
    using ts
    by (simp add: pushHistory_def pushHistory_enqueue_def prep
        shouldSkipValue_accept_eq [OF acc] buildRow_def formatDateTime_def)
  show ?thesis
    unfolding push prep using acc unfolding cl by simp
qed

text \<open>
  C5, amended. For a sample that reaches the policy engine: when the engine accepts it
  and its timestamp is a valid date (at most \<open>8.64e15\<close> milliseconds in absolute
  value), exactly one row, the row that \<open>buildRow\<close> makes of it, is appended to the
  queue (and stays its last row until the end of \<open>pushHistory\<close> when the batch size is
  not reached); when the engine skips it, no row is appended, and when it is the
  change-only filter that skips it (with the filter off the sample would pass) and
  \<open>disableSkippedValueLogging\<close> is false, the last-skipped record of the point is that
  sample.
\<close>

theorem row_count:
  assumes "pushHistory_prepare rt env s ident state allowCreate = (Inr (entry, cl, info, cv), s2)"
  shows "(\<not> fst (shouldSkipValue rt entry cv cl timerRelog) \<and> \<bar>ts cl\<bar> \<le> 8640000000000000 \<longrightarrow>
           (\<exists>r. buildRow rt ident info cv cl = Inr r
              \<and> buffer (snd (pushHistory_enqueue rt env s ident state timerRelog allowCreate))
                  = buffer s @ [r]
              \<and> (real (length (buffer s)) + 1 < batchSize s \<longrightarrow>
                   fst (pushHistory rt env s ident state timerRelog allowCreate) = Stored r
                 \<and> buffer (snd (pushHistory rt env s ident state timerRelog allowCreate))
                     = buffer s @ [r])))
       \<and> (fst (shouldSkipValue rt entry cv cl timerRelog) \<longrightarrow>
            fst (pushHistory rt env s ident state timerRelog allowCreate) = Skipped
          \<and> buffer (snd (pushHistory rt env s ident state timerRelog allowCreate)) = buffer s)
       \<and> (fst (shouldSkipValue rt entry cv cl timerRelog)
          \<and> \<not> fst (shouldSkipValue rt (entry\<lparr>config := (config entry)\<lparr>changesOnly := False\<rparr>\<rparr>)
                    cv cl timerRelog)
          \<and> \<not> disableSkippedValueLogging (config entry) \<longrightarrow>
            tracked (snd (pushHistory rt env s ident state timerRelog allowCreate)) ident
              = Some (entry\<lparr>lastSkippedState := Some cl\<rparr>))"
proof -
  have fr: "buffer s2 = buffer s" "batchSize s2 = batchSize s"
    using pushHistory_prepare_frame [of rt env s ident state allowCreate] assms by simp_all
  obtain skip entry' where sk: "shouldSkipValue rt entry cv cl timerRelog = (skip, entry')"
    by (cases "shouldSkipValue rt entry cv cl timerRelog")
  show ?thesis
  proof (cases skip)
    case True
    have enq: "pushHistory_enqueue rt env s ident state timerRelog allowCreate
        = (Inl Skipped, s2\<lparr>tracked := (tracked s2)(ident \<mapsto> entry')\<rparr>)"
      using assms sk True by (simp add: pushHistory_enqueue_def)
    have "entry' = entry\<lparr>lastSkippedState := Some cl\<rparr>"
      if "\<not> fst (shouldSkipValue rt (entry\<lparr>config := (config entry)\<lparr>changesOnly := False\<rparr>\<rparr>)
                 cv cl timerRelog)"
        and "\<not> disableSkippedValueLogging (config entry)"
      using changes_only_skip [of rt entry cv cl timerRelog] that sk True by simp
    with True sk fr enq show ?thesis
      by (simp add: pushHistory_def)
  next
    case False
    show ?thesis
    proof (cases "\<bar>ts cl\<bar> \<le> 8640000000000000")
      case valid: True
      then obtain r where r: "buildRow rt ident info cv cl = Inr r"
        using buildRow_valid by blast
      have enq: "pushHistory_enqueue rt env s ident state timerRelog allowCreate
          = (Inr (r, entry', cl, cv),
             queueRow_push r (s2\<lparr>tracked := (tracked s2)(ident \<mapsto> entry')\<rparr>))"
        using assms sk False r by (simp add: pushHistory_enqueue_def)
      have "fst (pushHistory rt env s ident state timerRelog allowCreate) = Stored r
                 \<and> buffer (snd (pushHistory rt env s ident state timerRelog allowCreate))
                     = buffer s @ [r]"
        if "real (length (buffer s)) + 1 < batchSize s"
        using that fr enq by (simp add: pushHistory_def queueRow_flush_def queueRow_push_def)
      with enq r fr sk False show ?thesis by (simp add: queueRow_push_def)
    next
      case invalid: False
      with sk False show ?thesis by simp
    qed
  qed
qed

text \<open>
  The theorem at concrete inputs: the first sample 21.5 of a tracked point is queued;
  the same value after a stored 21.5 is skipped by the change-only filter and recorded
  as the last skipped sample.
\<close>

theorem row_count_witness:
  "length (buffer (snd (pushHistory test_runtime (store_rejecting []) tracking_adapter
        ''sensor.0.value'' (raw_sample (JNum (43 / 2)) 1700000000000) False False))) = 1
   \<and> fst (pushHistory test_runtime (store_rejecting [])
        (tracking_adapter\<lparr>tracked := [''sensor.0.value'' \<mapsto> point_with defaults (43 / 2) 1000]\<rparr>)
        ''sensor.0.value'' (raw_sample (JNum (43 / 2)) 2000) False False) = Skipped
   \<and> tracked (snd (pushHistory test_runtime (store_rejecting [])
        (tracking_adapter\<lparr>tracked := [''sensor.0.value'' \<mapsto> point_with defaults (43 / 2) 1000]\<rparr>)
        ''sensor.0.value'' (raw_sample (JNum (43 / 2)) 2000) False False)) ''sensor.0.value''
      = Some ((point_with defaults (43 / 2) 1000)
          \<lparr>lastState := Some (cloneState (store_rejecting []) (raw_sample (JNum (43 / 2)) 2000)),
           lastSkippedState := Some (cloneState (store_rejecting []) (raw_sample (JNum (43 / 2)) 2000))\<rparr>)"
proof -
  let ?c1 = "cloneState (store_rejecting []) (raw_sample (JNum (43 / 2)) 1700000000000)"
  let ?e1 = "(createEphemeralEntry ''sensor.0.value'')\<lparr>lastState := Some ?c1\<rparr>"
  let ?c2 = "cloneState (store_rejecting []) (raw_sample (JNum (43 / 2)) 2000)"
  let ?e2 = "(point_with defaults (43 / 2) 1000)\<lparr>lastState := Some ?c2\<rparr>"
  have p1: "pushHistory_prepare test_runtime (store_rejecting []) tracking_adapter
        ''sensor.0.value'' (raw_sample (JNum (43 / 2)) 1700000000000) False
      = (Inr (?e1, ?c1, \<lparr>table = ''history_sensor_0_value'', table_type = NUMBER\<rparr>,
           number_cv (43 / 2)),
         tracking_adapter\<lparr>tracked := [''sensor.0.value'' \<mapsto> ?e1]\<rparr>)"
    by (rule prepare_first_sample)
  have a1: "\<not> fst (shouldSkipValue test_runtime ?e1 (number_cv (43 / 2)) ?c1 False)"
    by (simp add: shouldSkipValue_chain early_skip_def createEphemeralEntry_def defaults_def)
  have t1: "\<bar>ts ?c1\<bar> \<le> 8640000000000000" by (simp add: cloneState_raw_sample)
  have b1: "buffer tracking_adapter = [] \<and> batchSize tracking_adapter = 500"
    by (simp add: tracking_adapter_def idle_adapter_def)
  have p2: "pushHistory_prepare test_runtime (store_rejecting [])
        (tracking_adapter\<lparr>tracked := [''sensor.0.value'' \<mapsto> point_with defaults (43 / 2) 1000]\<rparr>)
        ''sensor.0.value'' (raw_sample (JNum (43 / 2)) 2000) False
      = (Inr (?e2, ?c2, \<lparr>table = ''history_sensor_0_value'', table_type = NUMBER\<rparr>,
           number_cv (43 / 2)),
         tracking_adapter\<lparr>tracked := [''sensor.0.value'' \<mapsto> ?e2]\<rparr>)"
    by (rule prepare_example) (simp add: point_with_def)
  have a2: "fst (shouldSkipValue test_runtime ?e2 (number_cv (43 / 2)) ?c2 False)"
    by (simp add: shouldSkipValue_chain early_skip_def point_with_def defaults_def
        valueChanged_def valuesEqual_def stored_number_def number_cv_def abs_diff_less_def
        NUMERIC_EPSILON_def)
  have n2: "\<not> fst (shouldSkipValue test_runtime
        (?e2\<lparr>config := (config ?e2)\<lparr>changesOnly := False\<rparr>\<rparr>) (number_cv (43 / 2)) ?c2 False)"
    by (simp add: shouldSkipValue_chain early_skip_def point_with_def defaults_def)
  have l2: "\<not> disableSkippedValueLogging (config ?e2)"
    by (simp add: point_with_def defaults_def)
  show ?thesis
    using row_count [OF p1, of False] a1 t1 b1 row_count [OF p2, of False] a2 n2 l2
    by auto
qed

text \<open>
  C10. A call of \<open>pushHistory\<close> with a sample whose value is \<open>undefined\<close> returns before
  the value is converted and before the policy is evaluated: the queue is unchanged,
  every tracked point that exists before the call is unchanged after it (no field is
  modified, no relog timer is armed), and the adapter as a whole is unchanged when the
  identifier is tracked already or must not be created. When the identifier is not
  tracked and may be created, the only effect is the new point that
  \<open>ensureEntryForId\<close> registers, which has no stored sample and no timer.
\<close>

theorem undefined_value_is_dropped:
  assumes "raw_val state = JUndefined"
  shows "fst (pushHistory rt env s ident state timerRelog allowCreate)
        = (if tracked s ident = None \<and> \<not> allowCreate then NotTracked else UndefinedValue)
     \<and> buffer (snd (pushHistory rt env s ident state timerRelog allowCreate)) = buffer s
     \<and> (\<forall>i e. tracked s i = Some e
          \<longrightarrow> tracked (snd (pushHistory rt env s ident state timerRelog allowCreate)) i = Some e)
     \<and> (tracked s ident \<noteq> None \<or> \<not> allowCreate
          \<longrightarrow> snd (pushHistory rt env s ident state timerRelog allowCreate) = s)
     \<and> (tracked s ident = None \<and> allowCreate
          \<longrightarrow> snd (pushHistory rt env s ident state timerRelog allowCreate)
              = snd (ensureEntryForId env s ident)
            \<and> (\<exists>e. tracked (snd (ensureEntryForId env s ident)) = (tracked s)(ident \<mapsto> e)
                  \<and> relogTimeout e = None \<and> lastStoredState e = None
                  \<and> lastSkippedState e = None \<and> lastStoredComparable e = JUndefined
                  \<and> lastLogTime e = 0))"
proof -
  have cl: "val (cloneState env state) = JUndefined"
    using assms by (simp add: cloneState_def)
  have prep: "pushHistory_prepare rt env s ident state allowCreate =
      (case tracked s ident of
         Some entry \<Rightarrow> (Inl UndefinedValue, s)
       | None \<Rightarrow> if \<not> allowCreate then (Inl NotTracked, s)
                 else (Inl UndefinedValue, snd (ensureEntryForId env s ident)))"
    using cl by (simp add: pushHistory_prepare_def Let_def split_beta split: option.splits)
  have push: "pushHistory rt env s ident state timerRelog allowCreate =
      (case tracked s ident of
         Some entry \<Rightarrow> (UndefinedValue, s)
       | None \<Rightarrow> if \<not> allowCreate then (NotTracked, s)
                 else (UndefinedValue, snd (ensureEntryForId env s ident)))"
    by (simp add: pushHistory_def pushHistory_enqueue_def prep split: option.splits)
  show ?thesis
    unfolding push
    by (auto simp: ensureEntryForId_def Let_def createEphemeralEntry_def addTrackedDatapoint_def
        split: option.splits)
qed

theorem undefined_value_is_dropped_witness:
  "pushHistory test_runtime (store_rejecting []) tracking_adapter ''sensor.0.value''
      (raw_sample JUndefined 1700000000000) False True = (UndefinedValue, tracking_adapter)
   \<and> fst (pushHistory test_runtime (store_rejecting []) tracking_adapter ''sensor.1.value''
      (raw_sample JUndefined 1700000000000) False False) = NotTracked"
proof -
  have r: "raw_val (raw_sample JUndefined 1700000000000) = JUndefined"
    by (simp add: raw_sample_def)
  have t: "tracked tracking_adapter ''sensor.0.value'' \<noteq> None
      \<and> tracked tracking_adapter ''sensor.1.value'' = None"
    by (simp add: tracking_adapter_def)
  show ?thesis
    using undefined_value_is_dropped [OF r, of test_runtime "store_rejecting []" tracking_adapter
        "''sensor.0.value''" False True]
      undefined_value_is_dropped [OF r, of test_runtime "store_rejecting []" tracking_adapter
        "''sensor.1.value''" False False] t
    by (simp add: prod_eq_iff)
qed

subsection \<open>Table names\<close>

text \<open>
  C9, as the claim states it, fails: the filler is put before the sanitized identifier,
  not before the table name, which begins with the table prefix; with the configured
  prefix \<open>2024\<close> the table name of the identifier \<open>temp\<close> is \<open>2024_temp\<close> and
  begins with a digit.
\<close>

theorem table_name_generation_counterexample:
  "generateTableName (sanitizeTablePrefix ''2024'') [] ''temp'' = ''2024_temp''
   \<and> is_digit (hd (generateTableName (sanitizeTablePrefix ''2024'') [] ''temp''))"
  by (simp add: table_name_digit_prefix) (simp add: is_digit_def)

text \<open>
  C9, amended. For every identifier and every configured table prefix (as
  \<open>sanitizeTablePrefix\<close> leaves it), with a cache of fewer than \<open>2^53\<close> entries: the
  generated table name contains only characters of \<open>[A-Za-z0-9_]\<close>; it begins with
  the first character of the table prefix (a non-digit for the default prefix
  \<open>history\<close>), and its identifier part, the sanitized identifier, begins with a
  non-digit (\<open>s_\<close> is put before a leading digit); it is at most 62 characters long; it
  differs from every table name cached for a different identifier; and when the plain
  candidate is cached for a different identifier, it ends with an underscore and a
  decimal counter. The identifier \<open>3abc!!def\<close> with the prefix \<open>history\<close> gives
  \<open>history_s_3abc_def\<close>, and a second identifier that sanitizes to the same name then
  gets \<open>history_s_3abc_def_1\<close>.
\<close>

theorem table_name_generation:
  assumes "length cache < 2 ^ 53"
  shows "(\<forall>c \<in> set (generateTableName (sanitizeTablePrefix raw) cache ident). is_word_char c)
     \<and> generateTableName (sanitizeTablePrefix raw) cache ident \<noteq> []
     \<and> hd (generateTableName (sanitizeTablePrefix raw) cache ident) = hd (sanitizeTablePrefix raw)
     \<and> \<not> is_digit (hd (sanitizeDatapointIdentifier ident))
     \<and> length (generateTableName (sanitizeTablePrefix raw) cache ident) \<le> 62
     \<and> (\<forall>other info. map_of cache other = Some info \<and> other \<noteq> ident
          \<longrightarrow> table info \<noteq> generateTableName (sanitizeTablePrefix raw) cache ident)
     \<and> (isTableNameInUse cache
           (normalizeLength (sanitizeTablePrefix raw @ ''_'' @ sanitizeDatapointIdentifier ident)) ident
          \<longrightarrow> (\<exists>k t. 1 \<le> k
                \<and> generateTableName (sanitizeTablePrefix raw) cache ident = t @ ''_'' @ decimal k))
     \<and> generateTableName ''history'' [] ''3abc!!def'' = ''history_s_3abc_def''
     \<and> generateTableName ''history''
          [(''3abc!!def'', \<lparr>table = ''history_s_3abc_def'', table_type = NUMBER\<rparr>)] ''3abc??def''
        = ''history_s_3abc_def_1''"
proof -
  define p where "p = sanitizeTablePrefix raw"
  define sid where "sid = sanitizeDatapointIdentifier ident"
  define b where "b = p @ ''_'' @ sid"
  define name where "name = generateTableName p cache ident"
  have name: "name = generate_loop cache p ident b (normalizeLength b) 1"
    unfolding name_def generateTableName_def Let_def b_def sid_def ..
  have pok: "(\<forall>c \<in> set p. is_word_char c) \<and> p \<noteq> [] \<and> \<not> is_underscore (hd p)"
    unfolding p_def by (rule sanitizeTablePrefix_ok)
  have sok: "(\<forall>c \<in> set sid. is_word_char c) \<and> sid \<noteq> [] \<and> \<not> is_digit (hd sid)"
    unfolding sid_def using sanitizeDatapointIdentifier_ok [of ident] by blast
  have bw: "\<forall>c \<in> set b. is_word_char c"
    using pok sok underscore_word by (auto simp: b_def)
  have bh: "b \<noteq> [] \<and> hd b = hd p" using pok by (simp add: b_def)
  have free: "\<not> isTableNameInUse cache name ident"
    unfolding name by (rule generate_loop_not_in_use)
  have shape: "(\<forall>c \<in> set name. is_word_char c) \<and> name \<noteq> [] \<and> hd name = hd p
      \<and> length name \<le> 62
      \<and> (isTableNameInUse cache (normalizeLength b) ident
          \<longrightarrow> (\<exists>k t. 1 \<le> k \<and> name = t @ ''_'' @ decimal k))"
    using generate_loop_result [of cache p ident b "normalizeLength b" 1]
  proof
    assume "generate_loop cache p ident b (normalizeLength b) 1 = normalizeLength b
        \<and> \<not> isTableNameInUse cache (normalizeLength b) ident"
    then have "name = normalizeLength b" and "\<not> isTableNameInUse cache (normalizeLength b) ident"
      using name by simp_all
    with normalizeLength_ok [OF bw] bh show ?thesis by simp
  next
    assume "isTableNameInUse cache (normalizeLength b) ident
        \<and> (\<exists>k\<ge>1. generate_loop cache p ident b (normalizeLength b) 1 = suffixed_candidate p b k
              \<and> (\<forall>j. 1 \<le> j \<and> j < k \<longrightarrow> isTableNameInUse cache (suffixed_candidate p b j) ident))"
    then obtain k where k: "1 \<le> k" "name = suffixed_candidate p b k"
        "\<forall>j. 1 \<le> j \<and> j < k \<longrightarrow> isTableNameInUse cache (suffixed_candidate p b j) ident"
      using name by auto
    have "k \<le> length cache + 1" using k(3) by (rule counter_bound)
    with assms have "k \<le> 2 ^ 53" by simp
    also have "(2::nat) ^ 53 < 10 ^ 16" by simp
    finally have kk: "k < 10 ^ 16" .
    obtain t where "suffixed_candidate p b k = t @ CHR ''_'' # decimal k"
      using suffixed_candidate_form by blast
    then have "\<exists>k' t'. 1 \<le> k' \<and> name = t' @ ''_'' @ decimal k'"
      using k(1,2) by auto
    with suffixed_candidate_ok [of p b sid k] pok sok kk k(2) show ?thesis
      by (simp add: b_def)
  qed
  have distinct: "\<forall>other info. map_of cache other = Some info \<and> other \<noteq> ident
      \<longrightarrow> table info \<noteq> name"
    using not_in_use_distinct [OF free] by blast
  show ?thesis
    using shape distinct sok table_name_first table_name_second
    unfolding name_def p_def sid_def b_def by simp
qed

theorem table_name_generation_witness:
  "hd (generateTableName (sanitizeTablePrefix ''history'')
         [(''3abc!!def'', \<lparr>table = ''history_s_3abc_def'', table_type = NUMBER\<rparr>)] ''3abc??def'')
     = CHR ''h''
   \<and> length (generateTableName (sanitizeTablePrefix ''history'')
         [(''3abc!!def'', \<lparr>table = ''history_s_3abc_def'', table_type = NUMBER\<rparr>)] ''3abc??def'')
     \<le> 62
   \<and> (\<exists>k t. 1 \<le> k \<and> generateTableName (sanitizeTablePrefix ''history'')
         [(''3abc!!def'', \<lparr>table = ''history_s_3abc_def'', table_type = NUMBER\<rparr>)] ''3abc??def''
       = t @ ''_'' @ decimal k)"
proof -
  let ?cache = "[(''3abc!!def'', \<lparr>table = ''history_s_3abc_def'', table_type = NUMBER\<rparr>)]"
  have l: "length ?cache < 2 ^ 53" by simp
  have u: "isTableNameInUse ?cache
      (normalizeLength (sanitizeTablePrefix ''history'' @ ''_'' @ sanitizeDatapointIdentifier ''3abc??def''))
      ''3abc??def''"
    by (simp add: sanitize_eval normalizeLength_def isTableNameInUse_def)
  have h: "hd (sanitizeTablePrefix ''history'') = CHR ''h''"
    by (simp add: sanitize_eval)
  note t = table_name_generation [OF l, of "''history''" "''3abc??def''"]
  note c3 = t [THEN conjunct2, THEN conjunct2, THEN conjunct1]
  note c5 = t [THEN conjunct2, THEN conjunct2, THEN conjunct2, THEN conjunct2, THEN conjunct1]
  note c7 = t [THEN conjunct2, THEN conjunct2, THEN conjunct2, THEN conjunct2, THEN conjunct2,
    THEN conjunct2, THEN conjunct1]
  show ?thesis
  proof (intro conjI)
    show "hd (generateTableName (sanitizeTablePrefix ''history'') ?cache ''3abc??def'') = CHR ''h''"
      using c3 h by (rule trans)
    show "length (generateTableName (sanitizeTablePrefix ''history'') ?cache ''3abc??def'') \<le> 62"
      by (rule c5)
    show "\<exists>k t. 1 \<le> k \<and> generateTableName (sanitizeTablePrefix ''history'') ?cache ''3abc??def''
        = t @ ''_'' @ decimal k"
      using c7 u by (rule mp)
  qed
qed

end
